theory Spec2Isabelle
  imports Main "HOL-Library.Word"
begin

section \<open>Python values used by the sources\<close>

text \<open>
  Strings are lists of characters; \<open>len\<close> is \<open>length\<close>. An optional argument whose
  default is \<open>None\<close> is an \<open>option\<close>. Exceptions are values of \<open>error\<close>, and a
  function that can raise returns \<open>error + 'a\<close> with \<open>Inl\<close> for the exception.
\<close>

datatype error =
  AssertionError | IndexError | KeyError | AttributeError | OSError | IRCSocketError

text \<open>Truthiness of an optional string: \<open>None\<close> and the empty string are false.\<close>

definition truthy :: "string option \<Rightarrow> bool" where
  "truthy s = (case s of None \<Rightarrow> False | Some x \<Rightarrow> x \<noteq> [])"

text \<open>\<open>s[s.index('@')+1:]\<close>, evaluated only where \<open>'@' in s\<close> holds.\<close>

definition after_at :: "string \<Rightarrow> string" where
  "after_at s = tl (dropWhile (\<lambda>c. c \<noteq> CHR ''@'') s)"

text \<open>\<open>s.startswith(p)\<close>.\<close>

definition startswith :: "string \<Rightarrow> string \<Rightarrow> bool" where
  "startswith s p = (take (length p) s = p)"

text \<open>\<open>sub in s\<close> for strings: \<open>sub\<close> occurs in \<open>s\<close> as a contiguous run.\<close>

fun contains :: "string \<Rightarrow> string \<Rightarrow> bool" where
  "contains sub [] = (sub = [])"
| "contains sub (c # cs) = (startswith (c # cs) sub \<or> contains sub cs)"

text \<open>The characters \<open>str.split()\<close> and \<open>str.strip()\<close> treat as white space (ASCII).\<close>

definition is_space :: "char \<Rightarrow> bool" where
  "is_space c = (c \<in> set [CHR '' '', CHR 0x09, CHR 0x0A, CHR 0x0B, CHR 0x0C, CHR 0x0D,
     CHR 0x1C, CHR 0x1D, CHR 0x1E, CHR 0x1F])"

text \<open>\<open>s.strip()\<close>.\<close>

definition strip :: "string \<Rightarrow> string" where
  "strip s = rev (dropWhile is_space (rev (dropWhile is_space s)))"

text \<open>
  \<open>s.split()\<close>: the maximal runs of characters that are not white space. The first
  argument holds the characters of the word being read, last one first.
\<close>

fun split_from :: "string \<Rightarrow> string \<Rightarrow> string list" where
  "split_from acc [] = (if acc = [] then [] else [rev acc])"
| "split_from acc (c # cs) =
     (if is_space c then (if acc = [] then split_from [] cs else rev acc # split_from [] cs)
      else split_from (c # acc) cs)"

definition split :: "string \<Rightarrow> string list" where
  "split s = split_from [] s"

text \<open>\<open>s.lower()\<close> on ASCII letters.\<close>

definition lower_char :: "char \<Rightarrow> char" where
  "lower_char c =
     (case map_of (zip ''ABCDEFGHIJKLMNOPQRSTUVWXYZ'' ''abcdefghijklmnopqrstuvwxyz'') c of
        Some l \<Rightarrow> l
      | None \<Rightarrow> c)"

definition lower :: "string \<Rightarrow> string" where
  "lower s = map lower_char s"

section \<open>irc.py: identities and the membership store\<close>

text \<open>
  \<open>class User\<close>. The constructor keeps of a host only what follows its first \<open>@\<close> and
  drops a leading \<open>~\<close> of the ident; \<open>host\<close> and \<open>ident\<close> default to \<open>None\<close>.
\<close>

record user =
  nick :: string
  host :: "string option"
  ident :: "string option"

definition normalize_host :: "string option \<Rightarrow> string option" where
  "normalize_host h =
     (case h of
        None \<Rightarrow> None
      | Some s \<Rightarrow> if s \<noteq> [] \<and> CHR ''@'' \<in> set s then Some (after_at s) else Some s)"

definition normalize_ident :: "string option \<Rightarrow> string option" where
  "normalize_ident i =
     (case i of
        None \<Rightarrow> None
      | Some s \<Rightarrow> (case s of [] \<Rightarrow> Some s | c # cs \<Rightarrow> if c = CHR ''~'' then Some cs else Some s))"

definition User :: "string \<Rightarrow> string option \<Rightarrow> string option \<Rightarrow> user" where
  "User n h i = \<lparr>nick = n, host = normalize_host h, ident = normalize_ident i\<rparr>"

text \<open>
  \<open>class Channel\<close> of irc.py. \<open>host_map\<close> is a dictionary from hosts to nicks and
  \<open>nick_map\<close> one from nicks to hosts; a host is whatever \<open>User.host\<close> holds, so the
  keys of \<open>host_map\<close> and the values of \<open>nick_map\<close> are optional strings.
\<close>

record irc_channel =
  channel :: string
  host_map :: "string option \<rightharpoonup> string"
  nick_map :: "string \<rightharpoonup> string option"
  allow_colors :: bool

definition Channel :: "string \<Rightarrow> error + irc_channel" where
  "Channel name =
     (case name of
        [] \<Rightarrow> Inl IndexError
      | c # cs \<Rightarrow>
          Inr \<lparr>channel = (if c \<noteq> CHR ''#'' then CHR ''#'' # name else name),
               host_map = Map.empty, nick_map = Map.empty, allow_colors = True\<rparr>)"

definition add_user :: "irc_channel \<Rightarrow> user \<Rightarrow> irc_channel" where
  "add_user c u =
     c\<lparr>host_map := (host_map c)(host u \<mapsto> nick u),
       nick_map := (nick_map c)(nick u \<mapsto> host u)\<rparr>"

text \<open>
  \<open>Channel.remove_user(nick=None, host=None)\<close>. The four \<open>if\<close> statements of the
  source run in order, each on the values the previous ones left in \<open>nick\<close> and \<open>host\<close>.
\<close>

definition remove_user :: "irc_channel \<Rightarrow> string option \<Rightarrow> string option \<Rightarrow> error + irc_channel" where
  "remove_user c nick0 host0 =
     (if \<not> (truthy nick0 \<or> truthy host0) then Inl AssertionError
      else
        let host1 = normalize_host host0;
            host2 = (case nick0 of
                       None \<Rightarrow> host1
                     | Some n \<Rightarrow> (case nick_map c n of None \<Rightarrow> host1 | Some h \<Rightarrow> h));
            nick1 = (case host2 of
                       None \<Rightarrow> nick0
                     | Some h \<Rightarrow> (case host_map c (Some h) of None \<Rightarrow> nick0 | Some n \<Rightarrow> Some n));
            nick_map1 = (case nick1 of
                           None \<Rightarrow> nick_map c
                         | Some n \<Rightarrow> if n \<in> dom (nick_map c) then (nick_map c)(n := None)
                                     else nick_map c);
            host_map1 = (case host2 of
                           None \<Rightarrow> host_map c
                         | Some h \<Rightarrow> if Some h \<in> dom (host_map c) then (host_map c)(Some h := None)
                                     else host_map c)
        in Inr (c\<lparr>nick_map := nick_map1, host_map := host_map1\<rparr>))"

definition update_nick :: "irc_channel \<Rightarrow> user \<Rightarrow> string \<Rightarrow> irc_channel" where
  "update_nick c u new_nick =
     (let old_nick = nick u;
          nick_map1 = (if old_nick \<in> dom (nick_map c) then (nick_map c)(old_nick := None)
                       else nick_map c)
      in c\<lparr>nick_map := nick_map1(new_nick \<mapsto> host u),
           host_map := (host_map c)(host u \<mapsto> new_nick)\<rparr>)"


text \<open>
  The membership operations as data, so that a sequence of them can be run. A call that
  raises (the assertion of \<open>remove_user\<close> fails before anything is changed) leaves the
  channel as it was, and the next call finds it so.
\<close>

datatype member_op =
  AddUser user
| RemoveUser "string option" "string option"
| UpdateNick user string

fun apply_op :: "irc_channel \<Rightarrow> member_op \<Rightarrow> error + irc_channel" where
  "apply_op c (AddUser u) = Inr (add_user c u)"
| "apply_op c (RemoveUser n h) = remove_user c n h"
| "apply_op c (UpdateNick u new_nick) = Inr (update_nick c u new_nick)"

fun run_ops :: "irc_channel \<Rightarrow> member_op list \<Rightarrow> irc_channel" where
  "run_ops c [] = c"
| "run_ops c (x # xs) =
     (case apply_op c x of Inl e \<Rightarrow> run_ops c xs | Inr c' \<Rightarrow> run_ops c' xs)"

text \<open>
  The two maps are inverse to each other: \<open>(h, n)\<close> is an entry of \<open>host_map\<close> exactly
  when \<open>(n, h)\<close> is one of \<open>nick_map\<close>; and they have as many keys.
\<close>

definition lockstep :: "irc_channel \<Rightarrow> bool" where
  "lockstep c = (\<forall>h n. host_map c h = Some n \<longleftrightarrow> nick_map c n = Some h)"

definition same_size :: "irc_channel \<Rightarrow> bool" where
  "same_size c = (card (dom (host_map c)) = card (dom (nick_map c)))"

text \<open>
  Calls that keep the maps inverse. A user is added with a host, and either the pair is
  already recorded or neither its host nor its nick is; a nick change is for a user
  with a host, recorded under the old nick, to a nick no other member has. Every
  \<open>remove_user\<close> call qualifies.
\<close>

fun op_ok :: "irc_channel \<Rightarrow> member_op \<Rightarrow> bool" where
  "op_ok c (AddUser u) =
     (host u \<noteq> None \<and>
      (host_map c (host u) = Some (nick u) \<or>
       host_map c (host u) = None \<and> nick_map c (nick u) = None))"
| "op_ok c (RemoveUser n h) = True"
| "op_ok c (UpdateNick u new_nick) =
     (host u \<noteq> None \<and> host_map c (host u) = Some (nick u) \<and>
      (new_nick = nick u \<or> nick_map c new_nick = None))"

fun ops_ok :: "irc_channel \<Rightarrow> member_op list \<Rightarrow> bool" where
  "ops_ok c [] = True"
| "ops_ok c (x # xs) =
     (op_ok c x \<and> (case apply_op c x of Inl e \<Rightarrow> ops_ok c xs | Inr c' \<Rightarrow> ops_ok c' xs))"

definition store_inv :: "irc_channel \<Rightarrow> bool" where
  "store_inv c = (lockstep c \<and> host_map c None = None)"

text \<open>A nick, or a host, that is not given or is not a key of its map.\<close>

definition nick_absent :: "irc_channel \<Rightarrow> string option \<Rightarrow> bool" where
  "nick_absent c n = (case n of None \<Rightarrow> True | Some x \<Rightarrow> nick_map c x = None)"

definition host_absent :: "irc_channel \<Rightarrow> string option \<Rightarrow> bool" where
  "host_absent c h = (case h of None \<Rightarrow> True | Some x \<Rightarrow> host_map c (Some x) = None)"

section \<open>irc.py: the socket\<close>

text \<open>
  One call of \<open>socket.recv\<close> returns bytes or raises \<open>OSError\<close>. The socket is the list
  of what its next calls give; once the list is used up the peer has closed the
  connection, and every further call returns \<open>b''\<close>.
\<close>

type_synonym byte = "8 word"

datatype recv_result = Bytes "byte list" | Fails

definition socket_recv :: "recv_result list \<Rightarrow> recv_result \<times> recv_result list" where
  "socket_recv rs = (case rs of [] \<Rightarrow> (Bytes [], []) | r # rs' \<Rightarrow> (r, rs'))"

text \<open>
  The condition of the \<open>while\<close> loop of \<open>IRCSocket.recv\<close>,
  \<open>data != b'' and (data[-1] != 10 and data[-2] != 13)\<close>, evaluated left to right:
  \<open>data[-2]\<close> is read only when the last byte is not 10, and raises on a single byte.
\<close>

definition read_more :: "byte list \<Rightarrow> error + bool" where
  "read_more data =
     (if data = [] then Inr False
      else if last data \<noteq> 10 then
        (if length data < 2 then Inl IndexError
         else Inr (data ! (length data - 2) \<noteq> 13))
      else Inr False)"

text \<open>The loop and the statements after it; \<open>None\<close> when the loop never ends.\<close>

partial_function (option) recv_loop ::
  "byte list \<Rightarrow> recv_result list \<Rightarrow> ((error + byte list) \<times> recv_result list) option" where
  "recv_loop data rs =
     (case read_more data of
        Inl e \<Rightarrow> Some (Inl e, rs)
      | Inr again \<Rightarrow>
          if again then
            (case socket_recv rs of
               (Fails, rs') \<Rightarrow> Some (Inl OSError, rs')
             | (Bytes chunk, rs') \<Rightarrow> recv_loop (data @ chunk) rs')
          else if data = [] then Some (Inl IRCSocketError, rs)
          else Some (Inr data, rs))"

text \<open>
  \<open>IRCSocket.recv\<close>. \<open>botologist.util.decode\<close> is not among the sources and is taken
  as a parameter.
\<close>

definition recv ::
  "(byte list \<Rightarrow> string) \<Rightarrow> recv_result list \<Rightarrow> ((error + string) \<times> recv_result list) option" where
  "recv decode rs =
     (case socket_recv rs of
        (Fails, rs') \<Rightarrow> Some (Inl OSError, rs')
      | (Bytes data, rs') \<Rightarrow>
          (case recv_loop data rs' of
             None \<Rightarrow> None
           | Some (Inl e, rs'') \<Rightarrow> Some (Inl e, rs'')
           | Some (Inr bytes, rs'') \<Rightarrow> Some (Inr (decode bytes), rs'')))"

text \<open>The data ends with the two bytes CR LF.\<close>

definition ends_with_crlf :: "byte list \<Rightarrow> bool" where
  "ends_with_crlf data = (length data \<ge> 2 \<and> drop (length data - 2) data = [13, 10])"

section \<open>irc.py: the connection\<close>

text \<open>
  \<open>class IRCSocket\<close> as the connection sees it: what is still to be read, and the
  payloads written so far. Of \<open>class Connection\<close>, the socket (absent when
  disconnected), the quitting flag and the three timers, each timer given by its delay
  in seconds.
\<close>

record IRCSocket =
  incoming :: "recv_result list"
  written :: "string list"

record connection =
  irc_socket :: "IRCSocket option"
  quitting :: bool
  reconnect_timer :: "nat option"
  ping_timer :: "nat option"
  ping_response_timer :: "nat option"

definition MAX_MSG_CHARS :: nat where
  "MAX_MSG_CHARS = 500"

text \<open>The line \<open>Connection.send\<close> hands on, before the terminator is appended.\<close>

definition send_line :: "string \<Rightarrow> string" where
  "send_line msg =
     (if length msg > MAX_MSG_CHARS then take (MAX_MSG_CHARS - 3) msg @ ''...'' else msg)"

definition CRLF :: string where
  "CRLF = [CHR 0x0D, CHR 0x0A]"

text \<open>
  \<open>Connection.send\<close>: the socket is given the line followed by CR LF; with no socket
  (\<open>irc_socket\<close> is \<open>None\<close>) the attribute access raises.
\<close>

definition send :: "connection \<Rightarrow> string \<Rightarrow> error + connection" where
  "send c msg =
     (case irc_socket c of
        None \<Rightarrow> Inl AttributeError
      | Some sock \<Rightarrow>
          Inr (c\<lparr>irc_socket := Some (sock\<lparr>written := written sock @ [send_line msg @ CRLF]\<rparr>)\<rparr>))"

text \<open>
  What \<open>Connection.reconnect\<close> starts: a timer that runs the connect sequence after a
  delay in seconds, or a thread that runs it at once.
\<close>

datatype started = Timer nat | Thread

definition disconnect :: "connection \<Rightarrow> connection" where
  "disconnect c = c\<lparr>irc_socket := None\<rparr>"

definition reconnect :: "connection \<Rightarrow> nat option \<Rightarrow> connection \<times> started" where
  "reconnect c time =
     (let c1 = (if irc_socket c \<noteq> None then disconnect c else c)
      in case time of
           None \<Rightarrow> (c1, Thread)
         | Some t \<Rightarrow> if t \<noteq> 0 then (c1\<lparr>reconnect_timer := Some t\<rparr>, Timer t) else (c1, Thread))"

definition reset_ping_timer :: "connection \<Rightarrow> connection" where
  "reset_ping_timer c = c\<lparr>ping_response_timer := None, ping_timer := Some (5 * 60)\<rparr>"

definition handle_ping_timeout :: "connection \<Rightarrow> connection \<times> started" where
  "handle_ping_timeout c = reconnect (c\<lparr>ping_response_timer := None\<rparr>) None"

definition throttle_text :: string where
  "throttle_text = '':Your host is trying to (re)connect too fast -- throttled''"

text \<open>
  \<open>Connection.handle_msg\<close>, its first three branches. The branches after \<open>ERROR\<close>
  (error replies and the named events, which work on the channels) are the parameter
  \<open>others\<close>. The result is the connection and what was started, if anything.
\<close>

definition handle_msg ::
  "(connection \<Rightarrow> string \<Rightarrow> error + connection \<times> started option) \<Rightarrow>
   connection \<Rightarrow> string \<Rightarrow> error + connection \<times> started option" where
  "handle_msg others c msg =
     (case split msg of
        [] \<Rightarrow> Inl IndexError
      | w # ws \<Rightarrow>
          if w = ''PING'' then
            (case ws of
               [] \<Rightarrow> Inl IndexError
             | w1 # _ \<Rightarrow>
                 (case send (reset_ping_timer c) (''PONG '' @ w1) of
                    Inl e \<Rightarrow> Inl e
                  | Inr c' \<Rightarrow> Inr (c', None)))
          else if w = ''PONG'' then Inr (reset_ping_timer c, None)
          else if w = ''ERROR'' then
            (if contains throttle_text msg
             then (case reconnect c (Some 60) of (c', s) \<Rightarrow> Inr (c', Some s))
             else (case reconnect c (Some 10) of (c', s) \<Rightarrow> Inr (c', Some s)))
          else others c msg)"

text \<open>
  One pass of \<open>Connection.loop\<close> up to the point where the received text is split into
  lines. \<open>IRCSocketError\<close> is a subclass of \<open>OSError\<close>, so the \<open>except\<close> clause catches
  both; any other exception leaves the loop.
\<close>

datatype loop_pass =
  Ended connection "started option"
| Received connection string
| Raised error connection

definition is_OSError :: "error \<Rightarrow> bool" where
  "is_OSError e = (e = OSError \<or> e = IRCSocketError)"

definition loop_pass :: "(byte list \<Rightarrow> string) \<Rightarrow> connection \<Rightarrow> loop_pass option" where
  "loop_pass decode c =
     (case irc_socket c of
        None \<Rightarrow> Some (Ended c None)
      | Some sock \<Rightarrow>
          (case recv decode (incoming sock) of
             None \<Rightarrow> None
           | Some (Inl e, rs) \<Rightarrow>
               (let c0 = c\<lparr>irc_socket := Some (sock\<lparr>incoming := rs\<rparr>)\<rparr>
                in if is_OSError e then
                     (if quitting c0 then Some (Ended c0 None)
                      else (case reconnect c0 (Some 5) of (c', s) \<Rightarrow> Some (Ended c' (Some s))))
                   else Some (Raised e c0))
           | Some (Inr data, rs) \<Rightarrow>
               Some (Received (c\<lparr>irc_socket := Some (sock\<lparr>incoming := rs\<rparr>)\<rparr>) data)))"

section \<open>bot.py: messages, channels and handlers\<close>

text \<open>
  \<open>class Message\<close> of irc.py, with the sender already parsed into a \<open>user\<close>.
  \<open>is_admin\<close> is the attribute the bot attaches to \<open>message.user\<close> before it
  dispatches.
\<close>

record message =
  user :: user
  is_admin :: bool
  target :: string
  message :: string
  words :: "string list"

definition Message :: "user \<Rightarrow> string \<Rightarrow> string \<Rightarrow> message" where
  "Message u tgt text =
     \<lparr>user = u, is_admin = False, target = tgt, message = text, words = split (strip text)\<rparr>"

definition is_private :: "message \<Rightarrow> error + bool" where
  "is_private m = (case target m of [] \<Rightarrow> Inl IndexError | c # cs \<Rightarrow> Inr (c \<noteq> CHR ''#''))"

text \<open>\<open>class CommandMessage\<close>: the first word is the command, the others its arguments.\<close>

record command_message =
  cmd_message :: message
  command :: string
  args :: "string list"

definition CommandMessage :: "message \<Rightarrow> error + command_message" where
  "CommandMessage m =
     (case words m of
        [] \<Rightarrow> Inl IndexError
      | w # ws \<Rightarrow> Inr \<lparr>cmd_message = m, command = w, args = ws\<rparr>)"

text \<open>What a handler returns: nothing, one text, or a list of texts.\<close>

datatype response = Nothing | Text string | Texts "string list"

definition is_true :: "response \<Rightarrow> bool" where
  "is_true r = (case r of Nothing \<Rightarrow> False | Text s \<Rightarrow> s \<noteq> [] | Texts l \<Rightarrow> l \<noteq> [])"

record handler =
  func :: "command_message \<Rightarrow> response"
  is_threaded :: bool

text \<open>
  \<open>class Channel\<close> of bot.py: the wrapped protocol channel, the command dictionary in
  insertion order, the repliers and the channel's admin hosts.
\<close>

record bot_channel =
  irc :: irc_channel
  commands :: "(string \<times> handler) list"
  replies :: "(message \<Rightarrow> response) list"
  admins :: "string option list"

text \<open>
  \<open>class Bot\<close>: the admin and ban lists, the names of the server's channels, and the
  throttle logs. A time is a \<open>datetime\<close> counted in microseconds.
\<close>

record bot =
  bot_admins :: "string option list"
  bans :: "string option list"
  channels :: "string list"
  command_log :: "string \<rightharpoonup> int"
  last_command :: "(string option \<times> string \<times> string list) option"
  reply_log :: "string \<rightharpoonup> (string \<rightharpoonup> int)"

definition CMD_PREFIX :: string where
  "CMD_PREFIX = ''!''"

definition SPAM_THROTTLE :: int where
  "SPAM_THROTTLE = 2"

text \<open>
  \<open>timedelta.seconds\<close> of a difference of two times: the whole seconds within the day,
  between 0 and 86399; whole days are held in \<open>timedelta.days\<close>, which the bot does
  not read.
\<close>

definition seconds :: "int \<Rightarrow> int" where
  "seconds diff = (diff div 1000000) mod 86400"

text \<open>
  \<open>Bot._send_msg\<close>: the calls \<open>conn.send_msg(target, msg)\<close> it makes, in order, for a
  list of messages and one target, \<open>*\<close> standing for every channel of the server.
\<close>

definition send_msg :: "bot \<Rightarrow> string list \<Rightarrow> string \<Rightarrow> (string \<times> string) list" where
  "send_msg b msgs tgt =
     (let targets = (if tgt = ''*'' then channels b else [tgt])
      in concat (map (\<lambda>msg. map (\<lambda>t. (t, msg)) targets) msgs))"

definition texts :: "response \<Rightarrow> string list" where
  "texts r = (case r of Nothing \<Rightarrow> [] | Text s \<Rightarrow> [s] | Texts l \<Rightarrow> l)"

section \<open>bot.py: command dispatch\<close>

text \<open>
  \<open>Bot._call_command\<close>. The result is the bot and \<open>None\<close> when the call is throttled,
  or what the handler returned when it was called. \<open>now\<close> is the reading of the clock.
\<close>

definition call_command ::
  "bot \<Rightarrow> int \<Rightarrow> handler \<Rightarrow> command_message \<Rightarrow> bot \<times> response option" where
  "call_command b now command_func cmd =
     (let entry = (host (user (cmd_message cmd)), command cmd, args cmd);
          throttled =
            (case command_log b (command cmd) of
               None \<Rightarrow> False
             | Some logged \<Rightarrow>
                 if \<not> is_admin (cmd_message cmd) then
                   (let diff = now - logged;
                        threshold = (if last_command b = Some entry then SPAM_THROTTLE * 3
                                     else SPAM_THROTTLE)
                    in seconds diff < threshold)
                 else False)
      in if throttled then (b, None)
         else (b\<lparr>last_command := Some entry,
                  command_log := (command_log b)(command cmd \<mapsto> now)\<rparr>,
               Some (func command_func cmd)))"

text \<open>
  The triple \<open>(command.user.host, command.command, command.args)\<close> that
  \<open>_call_command\<close> compares with \<open>_last_command\<close>, and the threshold it applies.
\<close>

definition entry_of :: "command_message \<Rightarrow> string option \<times> string \<times> string list" where
  "entry_of cmd = (host (user (cmd_message cmd)), command cmd, args cmd)"

definition threshold :: "bot \<Rightarrow> command_message \<Rightarrow> int" where
  "threshold b cmd =
     (if last_command b = Some (entry_of cmd) then SPAM_THROTTLE * 3 else SPAM_THROTTLE)"

text \<open>
  \<open>Bot._maybe_send_cmd_reply\<close>: the bot, what the handler returned if it was called,
  and the messages sent.
\<close>

definition maybe_send_cmd_reply ::
  "bot \<Rightarrow> int \<Rightarrow> handler \<Rightarrow> command_message \<Rightarrow> bot \<times> response option \<times> (string \<times> string) list" where
  "maybe_send_cmd_reply b now command_func cmd =
     (case call_command b now command_func cmd of
        (b', None) \<Rightarrow> (b', None, [])
      | (b', Some r) \<Rightarrow>
          (b', Some r, if is_true r then send_msg b' (texts r) (target (cmd_message cmd)) else []))"

text \<open>
  The first part of \<open>Bot._handle_command\<close>: the handler and the command message the
  typed command resolves to, if any.
\<close>

definition resolve_command ::
  "bot_channel \<Rightarrow> message \<Rightarrow> error + (handler \<times> command_message) option" where
  "resolve_command ch m =
     (case words m of
        [] \<Rightarrow> Inl IndexError
      | w # ws \<Rightarrow>
          (let cmd_string = lower (drop 1 w)
           in case map_of (commands ch) cmd_string of
                Some command_func \<Rightarrow>
                  (case CommandMessage m of
                     Inl e \<Rightarrow> Inl e
                   | Inr cmd \<Rightarrow> Inr (Some (command_func, cmd)))
              | None \<Rightarrow>
                  (let matching_commands =
                         filter (\<lambda>cmd. startswith cmd cmd_string) (map fst (commands ch))
                   in if length matching_commands = 0 then Inr None
                      else if length matching_commands \<noteq> 1 then Inr None
                      else
                        (case CommandMessage m of
                           Inl e \<Rightarrow> Inl e
                         | Inr cmd \<Rightarrow>
                             (case map_of (commands ch) (matching_commands ! 0) of
                                None \<Rightarrow> Inl KeyError
                              | Some command_func \<Rightarrow>
                                  Inr (Some (command_func,
                                    cmd\<lparr>command := CMD_PREFIX @ matching_commands ! 0\<rparr>)))))))"

text \<open>
  \<open>Bot._handle_command\<close>. A threaded handler runs the same call on a thread of its
  own; the model runs it in place.
\<close>

definition handle_command ::
  "bot \<Rightarrow> int \<Rightarrow> message \<Rightarrow> bot_channel \<Rightarrow>
   error + bot \<times> response option \<times> (string \<times> string) list" where
  "handle_command b now m ch =
     (case resolve_command ch m of
        Inl e \<Rightarrow> Inl e
      | Inr None \<Rightarrow> Inr (b, None, [])
      | Inr (Some (command_func, cmd)) \<Rightarrow> Inr (maybe_send_cmd_reply b now command_func cmd))"

section \<open>bot.py: reply dispatch\<close>

text \<open>The first loop of \<open>Bot._call_repliers\<close>: the replies of all repliers, in order.\<close>

fun collect_replies :: "string list \<Rightarrow> (message \<Rightarrow> response) list \<Rightarrow> message \<Rightarrow> string list" where
  "collect_replies final_replies [] m = final_replies"
| "collect_replies final_replies (reply_func # fs) m =
     (let r = reply_func m
      in if \<not> is_true r then collect_replies final_replies fs m
         else (case r of
                 Texts l \<Rightarrow> collect_replies (final_replies @ l) fs m
               | Text s \<Rightarrow> collect_replies (final_replies @ [s]) fs m
               | Nothing \<Rightarrow> collect_replies final_replies fs m))"

text \<open>
  The second loop, \<open>for reply in final_replies\<close>, whose body removes from the list it
  runs over. Python's list iterator keeps an index \<open>i\<close>: each round reads
  \<open>final_replies[i]\<close> if \<open>i\<close> is below the current length, and moves on to \<open>i + 1\<close>;
  \<open>final_replies.remove(reply)\<close> deletes the first element equal to \<open>reply\<close>.
\<close>

function throttle_replies ::
  "int \<Rightarrow> string \<Rightarrow> nat \<Rightarrow> string list \<Rightarrow> (string \<rightharpoonup> (string \<rightharpoonup> int)) \<Rightarrow>
   string list \<times> (string \<rightharpoonup> (string \<rightharpoonup> int))" where
  "throttle_replies now chan i final_replies log =
     (if i < length final_replies then
        (let reply = final_replies ! i;
             log1 = (if chan \<notin> dom log then log(chan \<mapsto> Map.empty) else log);
             chan_log = (case log1 chan of None \<Rightarrow> Map.empty | Some l \<Rightarrow> l);
             final_replies1 =
               (case chan_log reply of
                  None \<Rightarrow> final_replies
                | Some logged \<Rightarrow>
                    if seconds (now - logged) < SPAM_THROTTLE then remove1 reply final_replies
                    else final_replies)
         in throttle_replies now chan (i + 1) final_replies1
              (log1(chan \<mapsto> chan_log(reply \<mapsto> now))))
      else (final_replies, log))"
  by pat_completeness auto
termination
  by (relation "measure (\<lambda>(now, chan, i, final_replies, log). length final_replies - i)")
    (auto simp: length_remove1 split: option.splits)

declare throttle_replies.simps [simp del]

text \<open>\<open>Bot._call_repliers\<close>.\<close>

definition call_repliers :: "bot \<Rightarrow> int \<Rightarrow> bot_channel \<Rightarrow> message \<Rightarrow> bot \<times> string list" where
  "call_repliers b now ch m =
     (let final_replies = collect_replies [] (replies ch) m
      in if \<not> is_admin m then
           (case throttle_replies now (channel (irc ch)) 0 final_replies (reply_log b) of
              (final_replies1, log) \<Rightarrow> (b\<lparr>reply_log := log\<rparr>, final_replies1))
         else (b, final_replies))"

text \<open>
  \<open>Bot._handle_privmsg\<close>, for the channel \<open>ch\<close> the message was sent to: the bot and the
  messages sent.
\<close>

definition handle_privmsg ::
  "bot \<Rightarrow> int \<Rightarrow> message \<Rightarrow> bot_channel \<Rightarrow> error + bot \<times> (string \<times> string) list" where
  "handle_privmsg b now m ch =
     (if host (user m) \<in> set (bans b) then Inr (b, [])
      else
        (case is_private m of
           Inl e \<Rightarrow> Inl e
         | Inr True \<Rightarrow> Inr (b, [])
         | Inr False \<Rightarrow>
             (let m1 = m\<lparr>is_admin := (host (user m) \<in> set (bot_admins b) \<or>
                                      host (user m) \<in> set (admins ch))\<rparr>
              in if startswith (message m1) CMD_PREFIX then
                   (case handle_command b now m1 ch of
                      Inl e \<Rightarrow> Inl e
                    | Inr (b', r, sent) \<Rightarrow> Inr (b', sent))
                 else
                   (case call_repliers b now ch m1 of
                      (b', response) \<Rightarrow>
                        Inr (b', if response \<noteq> [] then send_msg b' response (target m1) else [])))))"

section \<open>Example values\<close>

text \<open>
  A bot with empty logs, two command handlers, three command messages (two from users who
  are not admins, one from an admin), two repliers after those of the default plugin,
  a channel that registers them, the message of a user with a given text, and a
  message that triggers both repliers.
\<close>

definition empty_bot :: bot where
  "empty_bot = \<lparr>bot_admins = [], bans = [], channels = [''#chan''], command_log = Map.empty,
     last_command = None, reply_log = Map.empty\<rparr>"

definition roll :: handler where
  "roll = \<lparr>func = (\<lambda>cmd. Text (''Rolling for '' @ command cmd)), is_threaded = False\<rparr>"

definition repo :: handler where
  "repo = \<lparr>func = (\<lambda>cmd. Text ''https://github.com/anlutro/botologist''), is_threaded = False\<rparr>"

definition alice_roll :: command_message where
  "alice_roll = \<lparr>cmd_message = Message (User ''alice'' (Some ''al@one.example'') None) ''#chan'' ''!roll 6'',
     command = ''!roll'', args = [''6'']\<rparr>"

definition bob_roll :: command_message where
  "bob_roll = \<lparr>cmd_message = Message (User ''bob'' (Some ''bob@two.example'') None) ''#chan'' ''!roll 2d10'',
     command = ''!roll'', args = [''2d10'']\<rparr>"

definition admin_roll :: command_message where
  "admin_roll = \<lparr>cmd_message = (Message (User ''root'' (Some ''root@admin.example'') None) ''#chan'' ''!roll 6'')
       \<lparr>is_admin := True\<rparr>,
     command = ''!roll'', args = [''6'']\<rparr>"

definition greets :: "message \<Rightarrow> response" where
  "greets m = (if contains ''hello'' (message m) then Text ''hello yourself'' else Nothing)"

definition always_works :: "message \<Rightarrow> response" where
  "always_works m = (if contains ''bot does not work'' (message m) then Text ''I always work'' else Nothing)"

definition chan :: bot_channel where
  "chan = \<lparr>irc = \<lparr>channel = ''#chan'', host_map = Map.empty, nick_map = Map.empty, allow_colors = True\<rparr>,
     commands = [(''roll'', roll), (''repo'', repo)], replies = [greets, always_works],
     admins = []\<rparr>"

definition alice_says :: "string \<Rightarrow> message" where
  "alice_says text = Message (User ''alice'' (Some ''al@one.example'') None) ''#chan'' text"

definition complaint :: message where
  "complaint = Message (User ''alice'' (Some ''al@one.example'') None) ''#chan'' ''hello, bot does not work''"

section \<open>Properties of Connection.send\<close>

lemma send_line_short: "length msg \<le> MAX_MSG_CHARS \<Longrightarrow> send_line msg = msg"
  by (simp add: send_line_def)

lemma send_line_long:
  assumes "length msg > MAX_MSG_CHARS"
  shows "send_line msg = take 497 msg @ ''...''" and "length (send_line msg) = 500"
  using assms by (simp_all add: send_line_def MAX_MSG_CHARS_def)

text \<open>
  Claim C6. Connection.send leaves a line of at most 500 characters as it is (so a line
  of exactly 500 characters is untouched); a longer line is cut, not split: one payload
  is written, its line is exactly 500 characters long, begins with the first 497
  characters of the message and ends with the marker \<open>...\<close>. The written payload is the
  line followed by CR LF.
\<close>

theorem send_truncates:
  "(irc_socket c = Some sock \<longrightarrow>
      send c msg =
        Inr (c\<lparr>irc_socket := Some (sock\<lparr>written := written sock @ [send_line msg @ CRLF]\<rparr>)\<rparr>)) \<and>
   (length msg \<le> 500 \<longrightarrow> send_line msg = msg) \<and>
   (length msg > 500 \<longrightarrow>
      length (send_line msg) = 500 \<and> send_line msg = take 497 msg @ ''...'')"
  using send_line_short [of msg] send_line_long [of msg]
  by (simp add: send_def MAX_MSG_CHARS_def)

theorem send_truncates_witness:
  "length (replicate 500 CHR ''a'') \<le> 500 \<and>
   send_line (replicate 500 CHR ''a'') = replicate 500 CHR ''a'' \<and>
   length (replicate 501 CHR ''a'') > 500 \<and>
   length (send_line (replicate 501 CHR ''a'')) = 500 \<and>
   send_line (replicate 501 CHR ''a'') = take 497 (replicate 501 CHR ''a'') @ ''...'' \<and>
   send \<lparr>irc_socket = Some \<lparr>incoming = [], written = []\<rparr>, quitting = False,
     reconnect_timer = None, ping_timer = None, ping_response_timer = None\<rparr>
     (replicate 501 CHR ''a'') =
   Inr \<lparr>irc_socket = Some \<lparr>incoming = [],
          written = [send_line (replicate 501 CHR ''a'') @ CRLF]\<rparr>, quitting = False,
     reconnect_timer = None, ping_timer = None, ping_response_timer = None\<rparr>"
  using send_truncates [of _ _ "replicate 500 CHR ''a''"]
    send_truncates [of "\<lparr>irc_socket = Some \<lparr>incoming = [], written = []\<rparr>, quitting = False,
     reconnect_timer = None, ping_timer = None, ping_response_timer = None\<rparr>"
     "\<lparr>incoming = [], written = []\<rparr>" "replicate 501 CHR ''a''"]
  by simp

section \<open>Properties of Channel.remove_user\<close>

lemma remove_user_ok:
  "truthy nick0 \<or> truthy host0 \<Longrightarrow> \<exists>c'. remove_user c nick0 host0 = Inr c'"
  by (simp add: remove_user_def Let_def)

lemma remove_user_raises:
  "\<not> truthy nick0 \<Longrightarrow> \<not> truthy host0 \<Longrightarrow> remove_user c nick0 host0 = Inl AssertionError"
  by (simp add: remove_user_def)

lemma remove_user_absent:
  "truthy nick0 \<or> truthy host0 \<Longrightarrow> nick_absent c nick0 \<Longrightarrow>
   host_absent c (normalize_host host0) \<Longrightarrow> remove_user c nick0 host0 = Inr c"
  by (auto simp: remove_user_def Let_def nick_absent_def host_absent_def split: option.splits)

text \<open>
  Claim C10. Given a nick or a host, that is, when one of the two arguments is a
  non-empty string as the assertion of the source asks, \<open>remove_user\<close> does not raise;
  and when the given nick is not a key of \<open>nick_map\<close> and the host, normalized by
  dropping everything up to and including its first \<open>@\<close>, is not a key of \<open>host_map\<close>,
  both maps are left as they were.
\<close>

theorem remove_user_safe:
  assumes "truthy nick0 \<or> truthy host0"
  shows "\<exists>c'. remove_user c nick0 host0 = Inr c' \<and>
           (nick_absent c nick0 \<and> host_absent c (normalize_host host0) \<longrightarrow>
              host_map c' = host_map c \<and> nick_map c' = nick_map c)"
  using assms remove_user_ok [of nick0 host0 c] remove_user_absent [of nick0 host0 c]
  by auto

theorem remove_user_safe_witness:
  "truthy (Some ''carol'') \<and>
   nick_absent (add_user \<lparr>channel = ''#chan'', host_map = Map.empty, nick_map = Map.empty,
       allow_colors = True\<rparr> (User ''alice'' (Some ''alice@example.org'') None)) (Some ''carol'') \<and>
   host_absent (add_user \<lparr>channel = ''#chan'', host_map = Map.empty, nick_map = Map.empty,
       allow_colors = True\<rparr> (User ''alice'' (Some ''alice@example.org'') None))
     (normalize_host (Some ''carol@example.net'')) \<and>
   (\<exists>c'. remove_user (add_user \<lparr>channel = ''#chan'', host_map = Map.empty, nick_map = Map.empty,
       allow_colors = True\<rparr> (User ''alice'' (Some ''alice@example.org'') None))
       (Some ''carol'') (Some ''carol@example.net'') = Inr c' \<and>
     host_map c' = host_map (add_user \<lparr>channel = ''#chan'', host_map = Map.empty,
       nick_map = Map.empty, allow_colors = True\<rparr> (User ''alice'' (Some ''alice@example.org'') None)) \<and>
     nick_map c' = nick_map (add_user \<lparr>channel = ''#chan'', host_map = Map.empty,
       nick_map = Map.empty, allow_colors = True\<rparr> (User ''alice'' (Some ''alice@example.org'') None)))"
proof -
  let ?c = "add_user \<lparr>channel = ''#chan'', host_map = Map.empty, nick_map = Map.empty,
       allow_colors = True\<rparr> (User ''alice'' (Some ''alice@example.org'') None)"
  have t: "truthy (Some ''carol'') \<or> truthy (Some ''carol@example.net'')"
    by (simp add: truthy_def)
  have n: "nick_absent ?c (Some ''carol'')"
    by (simp add: nick_absent_def add_user_def User_def)
  have h: "host_absent ?c (normalize_host (Some ''carol@example.net''))"
    by (simp add: host_absent_def add_user_def User_def normalize_host_def after_at_def)
  from remove_user_safe [OF t, of ?c] n h t show ?thesis
    by (simp add: truthy_def)
qed

section \<open>Properties of the membership store\<close>

lemma lockstep_same_size: "lockstep c \<Longrightarrow> same_size c"
proof -
  assume l: "lockstep c"
  have "bij_betw (\<lambda>h. the (host_map c h)) (dom (host_map c)) (dom (nick_map c))"
    unfolding bij_betw_def
  proof
    show "inj_on (\<lambda>h. the (host_map c h)) (dom (host_map c))"
    proof (rule inj_onI)
      fix x y
      assume "x \<in> dom (host_map c)" and "y \<in> dom (host_map c)"
        and e: "the (host_map c x) = the (host_map c y)"
      then obtain n m where n: "host_map c x = Some n" and m: "host_map c y = Some m"
        by auto
      with e have "n = m" by simp
      with l n m have "nick_map c n = Some x" and "nick_map c n = Some y"
        by (simp_all add: lockstep_def)
      then show "x = y" by simp
    qed
    show "(\<lambda>h. the (host_map c h)) ` dom (host_map c) = dom (nick_map c)"
      using l by (force simp: lockstep_def image_iff)
  qed
  then show ?thesis unfolding same_size_def by (rule bij_betw_same_card)
qed

lemma add_user_inv: "store_inv c \<Longrightarrow> op_ok c (AddUser u) \<Longrightarrow> store_inv (add_user c u)"
  unfolding store_inv_def lockstep_def add_user_def
  by (auto; metis option.distinct(1) option.inject)

lemma update_nick_inv:
  "store_inv c \<Longrightarrow> op_ok c (UpdateNick u new_nick) \<Longrightarrow> store_inv (update_nick c u new_nick)"
  unfolding store_inv_def lockstep_def update_nick_def Let_def
  by (auto; metis option.distinct(1) option.inject)

lemma remove_pair_inv:
  assumes "store_inv c" and "host_map c (Some h) = Some n"
  shows "store_inv (c\<lparr>nick_map := (nick_map c)(n := None), host_map := (host_map c)(Some h := None)\<rparr>)"
  using assms unfolding store_inv_def lockstep_def
  by (auto; metis option.inject)

lemma remove_user_cases:
  assumes "store_inv c" and "remove_user c n h = Inr c'"
  shows "c' = c \<or> (\<exists>h0 n0. host_map c (Some h0) = Some n0 \<and>
           c' = c\<lparr>nick_map := (nick_map c)(n0 := None), host_map := (host_map c)(Some h0 := None)\<rparr>)"
proof -
  from assms(1) have l: "\<And>x y. host_map c x = Some y \<longleftrightarrow> nick_map c y = Some x"
    and nn: "host_map c None = None"
    by (simp_all add: store_inv_def lockstep_def)
  define host2 where "host2 = (case n of None \<Rightarrow> normalize_host h
                     | Some x \<Rightarrow> (case nick_map c x of None \<Rightarrow> normalize_host h | Some y \<Rightarrow> y))"
  define nick1 where "nick1 = (case host2 of None \<Rightarrow> n
                     | Some y \<Rightarrow> (case host_map c (Some y) of None \<Rightarrow> n | Some x \<Rightarrow> Some x))"
  have c': "c' = c\<lparr>nick_map := (case nick1 of None \<Rightarrow> nick_map c
                         | Some x \<Rightarrow> if x \<in> dom (nick_map c) then (nick_map c)(x := None) else nick_map c),
                   host_map := (case host2 of None \<Rightarrow> host_map c
                         | Some y \<Rightarrow> if Some y \<in> dom (host_map c) then (host_map c)(Some y := None) else host_map c)\<rparr>"
    using assms(2) by (simp add: remove_user_def Let_def host2_def nick1_def split: if_splits)
  show ?thesis
  proof (cases "\<exists>y x. host2 = Some y \<and> host_map c (Some y) = Some x")
    case True
    then obtain y x where "host2 = Some y" "host_map c (Some y) = Some x" by blast
    moreover from this l have "nick_map c x = Some (Some y)" by simp
    ultimately show ?thesis using c' by (auto simp: nick1_def)
  next
    case False
    then have hm: "(case host2 of None \<Rightarrow> host_map c
                         | Some y \<Rightarrow> if Some y \<in> dom (host_map c) then (host_map c)(Some y := None) else host_map c) = host_map c"
      by (auto split: option.splits)
    from False have n1: "nick1 = n" by (auto simp: nick1_def split: option.splits)
    have "n = None \<or> (\<exists>x. n = Some x \<and> nick_map c x = None)"
    proof (cases n)
      case None then show ?thesis by simp
    next
      case (Some x)
      show ?thesis
      proof (cases "nick_map c x")
        case None with Some show ?thesis by simp
      next
        case (Some y)
        with \<open>n = Some x\<close> have "host2 = y" by (simp add: host2_def)
        moreover from Some l have hy: "host_map c y = Some x" by simp
        moreover from hy nn obtain z where "y = Some z" by (cases y) auto
        ultimately show ?thesis using False by auto
      qed
    qed
    then have "(case nick1 of None \<Rightarrow> nick_map c
                         | Some x \<Rightarrow> if x \<in> dom (nick_map c) then (nick_map c)(x := None) else nick_map c) = nick_map c"
      using n1 by auto
    with hm c' show ?thesis by simp
  qed
qed

lemma remove_user_inv:
  "store_inv c \<Longrightarrow> remove_user c n h = Inr c' \<Longrightarrow> store_inv c'"
  using remove_user_cases [of c n h c'] remove_pair_inv [of c] by auto

lemma apply_op_inv:
  "store_inv c \<Longrightarrow> op_ok c x \<Longrightarrow> apply_op c x = Inr c' \<Longrightarrow> store_inv c'"
  by (cases x) (auto intro: add_user_inv update_nick_inv remove_user_inv)

lemma run_ops_inv: "store_inv c \<Longrightarrow> ops_ok c xs \<Longrightarrow> store_inv (run_ops c xs)"
proof (induction xs arbitrary: c)
  case Nil
  then show ?case by simp
next
  case (Cons x xs)
  show ?case
  proof (cases "apply_op c x")
    case (Inl e)
    with Cons show ?thesis by simp
  next
    case (Inr c')
    with Cons.prems have "store_inv c'" and "ops_ok c' xs"
      by (auto intro: apply_op_inv)
    with Cons.IH Inr show ?thesis by simp
  qed
qed

lemma empty_store_inv: "host_map c = Map.empty \<Longrightarrow> nick_map c = Map.empty \<Longrightarrow> store_inv c"
  by (simp add: store_inv_def lockstep_def)

text \<open>
  Claim C1, as amended. Starting from a channel with empty maps, after every sequence
  of membership operations in which each \<open>add_user\<close> brings a user with a host whose
  host and nick are either already recorded as a pair or both new, and each
  \<open>update_nick\<close> is for a user with a host recorded under its old nick and gives a nick
  no other member has, the two maps are inverse to each other and have equal
  cardinality. \<open>remove_user\<close> may be called with any arguments.
\<close>

theorem lockstep_maintained:
  assumes "host_map c = Map.empty" and "nick_map c = Map.empty" and "ops_ok c xs"
  shows "lockstep (run_ops c xs) \<and> same_size (run_ops c xs)"
proof -
  from assms have "store_inv (run_ops c xs)"
    by (intro run_ops_inv empty_store_inv)
  then have "lockstep (run_ops c xs)" by (simp add: store_inv_def)
  then show ?thesis by (simp add: lockstep_same_size)
qed

theorem lockstep_maintained_witness:
  "ops_ok \<lparr>channel = ''#chan'', host_map = Map.empty, nick_map = Map.empty, allow_colors = True\<rparr>
     [AddUser (User ''alice'' (Some ''a@one.example'') None),
      AddUser (User ''bob'' (Some ''b@two.example'') None),
      UpdateNick (User ''alice'' (Some ''a@one.example'') None) ''carol'',
      RemoveUser None (Some ''b@two.example'')] \<and>
   lockstep (run_ops \<lparr>channel = ''#chan'', host_map = Map.empty, nick_map = Map.empty, allow_colors = True\<rparr>
     [AddUser (User ''alice'' (Some ''a@one.example'') None),
      AddUser (User ''bob'' (Some ''b@two.example'') None),
      UpdateNick (User ''alice'' (Some ''a@one.example'') None) ''carol'',
      RemoveUser None (Some ''b@two.example'')]) \<and>
   same_size (run_ops \<lparr>channel = ''#chan'', host_map = Map.empty, nick_map = Map.empty, allow_colors = True\<rparr>
     [AddUser (User ''alice'' (Some ''a@one.example'') None),
      AddUser (User ''bob'' (Some ''b@two.example'') None),
      UpdateNick (User ''alice'' (Some ''a@one.example'') None) ''carol'',
      RemoveUser None (Some ''b@two.example'')])"
proof -
  let ?c = "\<lparr>channel = ''#chan'', host_map = Map.empty, nick_map = Map.empty, allow_colors = True\<rparr>"
  let ?xs = "[AddUser (User ''alice'' (Some ''a@one.example'') None),
      AddUser (User ''bob'' (Some ''b@two.example'') None),
      UpdateNick (User ''alice'' (Some ''a@one.example'') None) ''carol'',
      RemoveUser None (Some ''b@two.example'')]"
  have ok: "ops_ok ?c ?xs"
    by (simp add: User_def normalize_host_def normalize_ident_def after_at_def add_user_def
        update_nick_def remove_user_def truthy_def Let_def)
  from lockstep_maintained [of ?c ?xs] ok show ?thesis by simp
qed

text \<open>
  Without the condition the claim fails: two users that connect from one host are
  added to an empty channel. \<open>host_map\<close> then holds the one host with the second nick,
  \<open>nick_map\<close> both nicks.
\<close>

theorem shared_host_breaks_lockstep:
  "\<not> (lockstep (run_ops \<lparr>channel = ''#chan'', host_map = Map.empty, nick_map = Map.empty, allow_colors = True\<rparr>
         [AddUser (User ''alice'' (Some ''a@shared.example'') None),
          AddUser (User ''bob'' (Some ''b@shared.example'') None)]) \<and>
       same_size (run_ops \<lparr>channel = ''#chan'', host_map = Map.empty, nick_map = Map.empty, allow_colors = True\<rparr>
         [AddUser (User ''alice'' (Some ''a@shared.example'') None),
          AddUser (User ''bob'' (Some ''b@shared.example'') None)]))"
proof -
  let ?c = "run_ops \<lparr>channel = ''#chan'', host_map = Map.empty, nick_map = Map.empty, allow_colors = True\<rparr>
         [AddUser (User ''alice'' (Some ''a@shared.example'') None),
          AddUser (User ''bob'' (Some ''b@shared.example'') None)]"
  have h: "host_map ?c (Some ''shared.example'') = Some ''bob''"
    by (simp add: User_def normalize_host_def normalize_ident_def after_at_def add_user_def)
  have n: "nick_map ?c ''alice'' = Some (Some ''shared.example'')"
    by (simp add: User_def normalize_host_def normalize_ident_def after_at_def add_user_def)
  have "\<not> lockstep ?c"
  proof
    assume "lockstep ?c"
    with n have "host_map ?c (Some ''shared.example'') = Some ''alice''"
      unfolding lockstep_def by blast
    with h show False by simp
  qed
  then show ?thesis by blast
qed

lemma shared_host_sizes:
  "card (dom (host_map (run_ops \<lparr>channel = ''#chan'', host_map = Map.empty, nick_map = Map.empty, allow_colors = True\<rparr>
         [AddUser (User ''alice'' (Some ''a@shared.example'') None),
          AddUser (User ''bob'' (Some ''b@shared.example'') None)]))) = 1 \<and>
   card (dom (nick_map (run_ops \<lparr>channel = ''#chan'', host_map = Map.empty, nick_map = Map.empty, allow_colors = True\<rparr>
         [AddUser (User ''alice'' (Some ''a@shared.example'') None),
          AddUser (User ''bob'' (Some ''b@shared.example'') None)]))) = 2"
  by (simp add: User_def normalize_host_def normalize_ident_def after_at_def add_user_def)

section \<open>Properties of IRCSocket.recv\<close>

lemma recv_loop_stuck:
  assumes "recv_loop data rs = Some y"
  shows "\<not> (rs = [] \<and> read_more data = Inr True)"
proof (rule recv_loop.raw_induct
    [where P = "\<lambda>data rs y. \<not> (rs = [] \<and> read_more data = Inr True)", OF _ assms])
  fix loop data rs y
  assume IH: "\<And>data rs y. loop data rs = Some y \<Longrightarrow> \<not> (rs = [] \<and> read_more data = Inr True)"
    and body: "(case read_more data of
        Inl e \<Rightarrow> Some (Inl e, rs)
      | Inr again \<Rightarrow>
          if again then
            (case socket_recv rs of
               (Fails, rs') \<Rightarrow> Some (Inl OSError, rs')
             | (Bytes chunk, rs') \<Rightarrow> loop (data @ chunk) rs')
          else if data = [] then Some (Inl IRCSocketError, rs)
          else Some (Inr data, rs)) = Some y"
  show "\<not> (rs = [] \<and> read_more data = Inr True)"
  proof
    assume a: "rs = [] \<and> read_more data = Inr True"
    with body have "loop data [] = Some y"
      by (simp add: socket_recv_def)
    with IH have "\<not> ([] = ([]::recv_result list) \<and> read_more data = Inr True)" by blast
    with a show False by simp
  qed
qed

lemma recv_loop_closed: "read_more data = Inr True \<Longrightarrow> recv_loop data [] = None"
  using recv_loop_stuck [of data "[]"] by (cases "recv_loop data []") auto

text \<open>
  Claim C7 does not hold of the code. The loop of \<open>recv\<close> goes on only while the last
  byte is not LF and the byte before it is not CR, so it stops as soon as either one
  is in place. Here one chunk ends with LF alone: it is returned although the data
  does not end with CR LF.
\<close>

theorem recv_returns_without_crlf:
  "recv decode [Bytes [80, 73, 78, 71, 10]] = Some (Inr (decode [80, 73, 78, 71, 10]), []) \<and>
   \<not> ends_with_crlf [80, 73, 78, 71, 10]"
  by (simp add: recv_def socket_recv_def recv_loop.simps read_more_def ends_with_crlf_def)

text \<open>
  Further behaviour of \<open>recv\<close>: a first chunk of one byte other than LF raises
  \<open>IndexError\<close>; a zero-length read after a partial line raises nothing, and the loop
  never ends; a zero-length first read raises \<open>IRCSocketError\<close>; a line that ends with
  CR LF is returned, also when it arrives in two chunks.
\<close>

lemma recv_single_byte_raises:
  "recv decode [Bytes [80]] = Some (Inl IndexError, [])"
  by (simp add: recv_def socket_recv_def recv_loop.simps read_more_def)

lemma recv_never_returns_after_close:
  "recv decode [Bytes [80, 73]] = None"
proof -
  have "read_more [80, 73] = Inr True" by (simp add: read_more_def)
  then have "recv_loop [80, 73] [] = None" by (rule recv_loop_closed)
  then show ?thesis by (simp add: recv_def socket_recv_def)
qed

lemma recv_first_read_empty:
  "recv decode (Bytes [] # rs) = Some (Inl IRCSocketError, rs)"
  by (simp add: recv_def socket_recv_def recv_loop.simps read_more_def)

lemma recv_complete_line:
  "recv decode [Bytes [80, 73, 78, 71, 13, 10]] = Some (Inr (decode [80, 73, 78, 71, 13, 10]), [])"
  by (simp add: recv_def socket_recv_def recv_loop.simps read_more_def)

lemma recv_two_chunks:
  "recv decode [Bytes [80, 73, 78], Bytes [71, 13, 10]] = Some (Inr (decode [80, 73, 78, 71, 13, 10]), [])"
  by (simp add: recv_def socket_recv_def recv_loop.simps read_more_def)


section \<open>Properties of the reconnect policy\<close>

lemma reconnect_timer: "t \<noteq> 0 \<Longrightarrow>
  reconnect c (Some t) = ((if irc_socket c \<noteq> None then disconnect c else c)\<lparr>reconnect_timer := Some t\<rparr>, Timer t)"
  by (simp add: reconnect_def Let_def)

text \<open>
  Claim C8. When \<open>recv\<close> fails with an \<open>OSError\<close> in the receive loop and the client is
  not quitting, a reconnect timer of 5 seconds is started; a line whose first word is
  \<open>ERROR\<close> starts one of 60 seconds when it contains the reconnect-throttle text and
  one of 10 seconds otherwise; a ping timeout starts the connect sequence on a thread
  at once, with no timer. Each time the socket is dropped.
\<close>

theorem reconnect_delays:
  "(irc_socket c = Some sock \<and> recv decode (incoming sock) = Some (Inl e, rs) \<and> is_OSError e \<and>
      \<not> quitting c \<longrightarrow>
      (\<exists>c'. loop_pass decode c = Some (Ended c' (Some (Timer 5))) \<and>
            irc_socket c' = None \<and> reconnect_timer c' = Some 5)) \<and>
   (split msg = ''ERROR'' # ws \<and> contains throttle_text msg \<longrightarrow>
      (\<exists>c'. handle_msg others c msg = Inr (c', Some (Timer 60)) \<and>
            irc_socket c' = None \<and> reconnect_timer c' = Some 60)) \<and>
   (split msg = ''ERROR'' # ws \<and> \<not> contains throttle_text msg \<longrightarrow>
      (\<exists>c'. handle_msg others c msg = Inr (c', Some (Timer 10)) \<and>
            irc_socket c' = None \<and> reconnect_timer c' = Some 10)) \<and>
   (\<exists>c'. handle_ping_timeout c = (c', Thread) \<and> irc_socket c' = None \<and>
         reconnect_timer c' = reconnect_timer c)"
proof (intro conjI impI)
  assume "irc_socket c = Some sock \<and> recv decode (incoming sock) = Some (Inl e, rs) \<and> is_OSError e \<and>
      \<not> quitting c"
  then show "\<exists>c'. loop_pass decode c = Some (Ended c' (Some (Timer 5))) \<and>
            irc_socket c' = None \<and> reconnect_timer c' = Some 5"
    by (simp add: loop_pass_def Let_def reconnect_timer disconnect_def)
next
  assume "split msg = ''ERROR'' # ws \<and> contains throttle_text msg"
  then show "\<exists>c'. handle_msg others c msg = Inr (c', Some (Timer 60)) \<and>
            irc_socket c' = None \<and> reconnect_timer c' = Some 60"
    by (simp add: handle_msg_def reconnect_timer disconnect_def)
next
  assume "split msg = ''ERROR'' # ws \<and> \<not> contains throttle_text msg"
  then show "\<exists>c'. handle_msg others c msg = Inr (c', Some (Timer 10)) \<and>
            irc_socket c' = None \<and> reconnect_timer c' = Some 10"
    by (simp add: handle_msg_def reconnect_timer disconnect_def)
next
  show "\<exists>c'. handle_ping_timeout c = (c', Thread) \<and> irc_socket c' = None \<and>
         reconnect_timer c' = reconnect_timer c"
    by (simp add: handle_ping_timeout_def reconnect_def Let_def disconnect_def)
qed

lemma split_throttled:
  "split ''ERROR :Your host is trying to (re)connect too fast -- throttled'' =
     [''ERROR'', '':Your'', ''host'', ''is'', ''trying'', ''to'', ''(re)connect'', ''too'', ''fast'', ''--'', ''throttled'']"
  by (simp add: split_def is_space_def)

lemma contains_throttled:
  "contains throttle_text ''ERROR :Your host is trying to (re)connect too fast -- throttled''"
  by (simp add: throttle_text_def startswith_def)

lemma split_closing:
  "split ''ERROR :Closing Link: (Ping timeout)'' = [''ERROR'', '':Closing'', ''Link:'', ''(Ping'', ''timeout)'']"
  by (simp add: split_def is_space_def)

lemma contains_closing:
  "\<not> contains throttle_text ''ERROR :Closing Link: (Ping timeout)''"
  by (simp add: throttle_text_def startswith_def)

theorem reconnect_delays_witness:
  "recv (map (\<lambda>b. char_of (unat b)))
     (incoming \<lparr>incoming = [Fails], written = []\<rparr>) = Some (Inl OSError, []) \<and>
   is_OSError OSError \<and>
   (\<exists>c'. loop_pass (map (\<lambda>b. char_of (unat b)))
            \<lparr>irc_socket = Some \<lparr>incoming = [Fails], written = []\<rparr>, quitting = False,
              reconnect_timer = None, ping_timer = None, ping_response_timer = None\<rparr> =
          Some (Ended c' (Some (Timer 5))) \<and>
        irc_socket c' = None \<and> reconnect_timer c' = Some 5) \<and>
   contains throttle_text ''ERROR :Your host is trying to (re)connect too fast -- throttled'' \<and>
   (\<exists>c'. handle_msg (\<lambda>c msg. Inr (c, None))
            \<lparr>irc_socket = Some \<lparr>incoming = [Fails], written = []\<rparr>, quitting = False,
              reconnect_timer = None, ping_timer = None, ping_response_timer = None\<rparr>
            ''ERROR :Your host is trying to (re)connect too fast -- throttled'' =
          Inr (c', Some (Timer 60)) \<and>
        irc_socket c' = None \<and> reconnect_timer c' = Some 60) \<and>
   \<not> contains throttle_text ''ERROR :Closing Link: (Ping timeout)'' \<and>
   (\<exists>c'. handle_msg (\<lambda>c msg. Inr (c, None))
            \<lparr>irc_socket = Some \<lparr>incoming = [Fails], written = []\<rparr>, quitting = False,
              reconnect_timer = None, ping_timer = None, ping_response_timer = None\<rparr>
            ''ERROR :Closing Link: (Ping timeout)'' =
          Inr (c', Some (Timer 10)) \<and>
        irc_socket c' = None \<and> reconnect_timer c' = Some 10)"
proof -
  let ?c = "\<lparr>irc_socket = Some \<lparr>incoming = [Fails], written = []\<rparr>, quitting = False,
              reconnect_timer = None, ping_timer = None, ping_response_timer = None\<rparr>"
  let ?d = "map (\<lambda>b::byte. char_of (unat b))"
  have r: "recv ?d (incoming \<lparr>incoming = [Fails], written = []\<rparr>) = Some (Inl OSError, [])"
    by (simp add: recv_def socket_recv_def)
  have o: "is_OSError OSError"
    by (simp add: is_OSError_def)
  from reconnect_delays [of ?c "\<lparr>incoming = [Fails], written = []\<rparr>" ?d OSError "[]"
      "''ERROR :Your host is trying to (re)connect too fast -- throttled''" _ "\<lambda>c msg. Inr (c, None)"]
    reconnect_delays [of ?c "\<lparr>incoming = [Fails], written = []\<rparr>" ?d OSError "[]"
      "''ERROR :Closing Link: (Ping timeout)''" _ "\<lambda>c msg. Inr (c, None)"]
    r o split_throttled contains_throttled split_closing contains_closing
  show ?thesis by simp
qed

section \<open>Properties of the dispatcher\<close>

text \<open>
  A channel message of a host that is not banned goes to command dispatch when it
  starts with \<open>!\<close> and to reply dispatch otherwise, in both cases with the admin flag
  set from the two admin lists.
\<close>

lemma privmsg_command:
  assumes "host (user m) \<notin> set (bans b)" and "target m = CHR ''#'' # name"
    and "message m = CHR ''!'' # rest"
  shows "handle_privmsg b now m ch =
     (case handle_command b now
        (m\<lparr>is_admin := (host (user m) \<in> set (bot_admins b) \<or> host (user m) \<in> set (admins ch))\<rparr>) ch of
        Inl e \<Rightarrow> Inl e
      | Inr (b', r, sent) \<Rightarrow> Inr (b', sent))"
  using assms
  by (simp add: handle_privmsg_def is_private_def Let_def startswith_def CMD_PREFIX_def)

lemma privmsg_reply:
  assumes "host (user m) \<notin> set (bans b)" and "target m = CHR ''#'' # name"
    and "\<not> startswith (message m) ''!''"
  shows "handle_privmsg b now m ch =
     (case call_repliers b now ch
        (m\<lparr>is_admin := (host (user m) \<in> set (bot_admins b) \<or> host (user m) \<in> set (admins ch))\<rparr>) of
        (b', response) \<Rightarrow> Inr (b', if response \<noteq> [] then send_msg b' response (target m) else []))"
  using assms
  by (simp add: handle_privmsg_def is_private_def Let_def CMD_PREFIX_def split: prod.splits)

section \<open>Properties of the command throttle\<close>

lemma call_command_throttled_iff:
  "snd (call_command b now f cmd) = None \<longleftrightarrow>
     (\<exists>logged. command_log b (command cmd) = Some logged \<and> \<not> is_admin (cmd_message cmd) \<and>
        seconds (now - logged) < threshold b cmd)"
  by (auto simp: call_command_def Let_def threshold_def entry_of_def SPAM_THROTTLE_def
      split: option.splits)

lemma call_command_dropped:
  "snd (call_command b now f cmd) = None \<Longrightarrow> call_command b now f cmd = (b, None)"
  by (auto simp: call_command_def Let_def split: option.splits if_splits)

lemma call_command_fired:
  "snd (call_command b now f cmd) \<noteq> None \<Longrightarrow>
   call_command b now f cmd =
     (b\<lparr>last_command := Some (entry_of cmd), command_log := (command_log b)(command cmd \<mapsto> now)\<rparr>,
      Some (func f cmd))"
  by (auto simp: call_command_def Let_def entry_of_def split: option.splits if_splits)

lemma fired_iff: "snd (call_command b now f cmd) \<noteq> None \<longleftrightarrow> snd (call_command b now f cmd) = Some (func f cmd)"
  using call_command_fired [of b now f cmd] by auto

lemma seconds_within_day:
  assumes "0 \<le> d" and "d < 86400000000"
  shows "seconds d < k \<longleftrightarrow> d < k * 1000000"
proof -
  define q r where "q = d div 1000000" and "r = d mod 1000000"
  have d: "d = 1000000 * q + r" and r: "0 \<le> r" "r < 1000000"
    by (simp_all add: q_def r_def)
  from assms d r have "0 \<le> q" and "q < 86400" by linarith+
  then have "seconds d = q" by (simp add: seconds_def q_def)
  moreover from d r have "q < k \<longleftrightarrow> d < k * 1000000" by linarith
  ultimately show ?thesis by simp
qed

lemma second_call:
  assumes "snd (call_command b t1 f cmd) \<noteq> None" and "\<not> is_admin (cmd_message cmd')"
    and "command cmd' = command cmd" and "0 \<le> t2 - t1" and "t2 - t1 < 86400000000"
  shows "snd (call_command (fst (call_command b t1 f cmd)) t2 f' cmd') = None \<longleftrightarrow>
         t2 - t1 < (if entry_of cmd' = entry_of cmd then 6000000 else 2000000)"
proof -
  let ?b1 = "fst (call_command b t1 f cmd)"
  from assms(1) have b1: "command_log ?b1 (command cmd') = Some t1"
    "last_command ?b1 = Some (entry_of cmd)"
    using call_command_fired [of b t1 f cmd] assms(3) by simp_all
  then have "snd (call_command ?b1 t2 f' cmd') = None \<longleftrightarrow>
      seconds (t2 - t1) < (if entry_of cmd = entry_of cmd' then 6 else 2)"
    using assms(2) by (simp add: call_command_throttled_iff threshold_def SPAM_THROTTLE_def)
  also have "\<dots> \<longleftrightarrow> t2 - t1 < (if entry_of cmd' = entry_of cmd then 6000000 else 2000000)"
    using seconds_within_day [OF assms(4,5)] by auto
  finally show ?thesis .
qed

lemmas fixture_defs = empty_bot_def roll_def alice_roll_def bob_roll_def Message_def User_def
  normalize_host_def normalize_ident_def after_at_def

lemma alice_first:
  "call_command empty_bot 0 roll alice_roll =
     (empty_bot\<lparr>last_command := Some (Some ''one.example'', ''!roll'', [''6'']),
        command_log := [''!roll'' \<mapsto> 0]\<rparr>, Some (Text ''Rolling for !roll''))"
  by (simp add: call_command_def Let_def fixture_defs)

text \<open>
  Claim C3, as amended. A call that is throttled changes neither the command log nor
  the last-command cursor: the bot is left as it was. A call that is not throttled runs
  the handler, logs the time under the command string and sets the cursor to the
  triple of this call. So the window is counted from the last call that went through,
  and attempts made within it do not move it.
\<close>

theorem command_log_updated_when_fired:
  "(snd (call_command b now f cmd) = None \<longrightarrow> fst (call_command b now f cmd) = b) \<and>
   (snd (call_command b now f cmd) \<noteq> None \<longrightarrow>
      snd (call_command b now f cmd) = Some (func f cmd) \<and>
      command_log (fst (call_command b now f cmd)) = (command_log b)(command cmd \<mapsto> now) \<and>
      last_command (fst (call_command b now f cmd)) = Some (entry_of cmd))"
  using call_command_dropped [of b now f cmd] call_command_fired [of b now f cmd]
  by auto

theorem command_log_updated_when_fired_witness:
  "snd (call_command (fst (call_command empty_bot 0 roll alice_roll)) 1000000 roll bob_roll) = None \<and>
   fst (call_command (fst (call_command empty_bot 0 roll alice_roll)) 1000000 roll bob_roll) =
     fst (call_command empty_bot 0 roll alice_roll) \<and>
   snd (call_command (fst (call_command empty_bot 0 roll alice_roll)) 2000000 roll bob_roll) \<noteq> None \<and>
   command_log (fst (call_command (fst (call_command empty_bot 0 roll alice_roll)) 2000000 roll bob_roll)) =
     (command_log (fst (call_command empty_bot 0 roll alice_roll)))(command bob_roll \<mapsto> 2000000) \<and>
   last_command (fst (call_command (fst (call_command empty_bot 0 roll alice_roll)) 2000000 roll bob_roll)) =
     Some (entry_of bob_roll)"
proof -
  let ?b = "fst (call_command empty_bot 0 roll alice_roll)"
  have d: "snd (call_command ?b 1000000 roll bob_roll) = None"
    by (simp add: alice_first)
      (simp add: call_command_def Let_def fixture_defs seconds_def SPAM_THROTTLE_def)
  have f: "snd (call_command ?b 2000000 roll bob_roll) \<noteq> None"
    by (simp add: alice_first)
      (simp add: call_command_def Let_def fixture_defs seconds_def SPAM_THROTTLE_def)
  from command_log_updated_when_fired [of ?b 1000000 roll bob_roll]
    command_log_updated_when_fired [of ?b 2000000 roll bob_roll] d f
  show ?thesis by simp
qed

text \<open>
  The claim as written fails: one second after a \<open>!roll\<close> of one user, the \<open>!roll\<close> of
  another is dropped, and neither the log entry nor the cursor shows the attempt.
\<close>

theorem throttled_attempt_not_logged:
  "snd (call_command (fst (call_command empty_bot 0 roll alice_roll)) 1000000 roll bob_roll) = None \<and>
   command_log (fst (call_command (fst (call_command empty_bot 0 roll alice_roll)) 1000000 roll bob_roll))
     (command bob_roll) \<noteq> Some 1000000 \<and>
   last_command (fst (call_command (fst (call_command empty_bot 0 roll alice_roll)) 1000000 roll bob_roll))
     \<noteq> Some (entry_of bob_roll)"
  by (simp add: alice_first)
    (simp add: call_command_def Let_def fixture_defs entry_of_def seconds_def SPAM_THROTTLE_def)

text \<open>
  Claim C4, as amended. For a sender who is not an admin and a command string that is
  in the log, the call is dropped exactly when the seconds of the time since the logged
  call are below the threshold: 3 times the base of 2 when (host, command, args) is
  the triple of the last call that went through, the base otherwise. Hence, for two
  calls less than a day apart of which the first goes through: an identical second
  call is dropped when less than 6 seconds have passed and goes through otherwise; a
  second call of the same command string from another host or with other arguments is
  dropped when less than 2 seconds have passed and goes through otherwise. A call of
  an admin, and a call of a command string that is not in the log, always go through.
\<close>

theorem command_throttle:
  "SPAM_THROTTLE = 2 \<and>
   (\<not> is_admin (cmd_message cmd) \<and> command_log b (command cmd) = Some logged \<longrightarrow>
      (snd (call_command b now f cmd) = None \<longleftrightarrow>
         seconds (now - logged) <
           (if last_command b = Some (entry_of cmd) then SPAM_THROTTLE * 3 else SPAM_THROTTLE))) \<and>
   (\<not> is_admin (cmd_message cmd) \<and> snd (call_command b t1 f cmd) \<noteq> None \<and>
    0 \<le> t2 - t1 \<and> t2 - t1 < 86400000000 \<longrightarrow>
      (snd (call_command (fst (call_command b t1 f cmd)) t2 f cmd) = None \<longleftrightarrow> t2 - t1 < 6000000)) \<and>
   (\<not> is_admin (cmd_message cmd') \<and> snd (call_command b t1 f cmd) \<noteq> None \<and>
    command cmd' = command cmd \<and> entry_of cmd' \<noteq> entry_of cmd \<and>
    0 \<le> t2 - t1 \<and> t2 - t1 < 86400000000 \<longrightarrow>
      (snd (call_command (fst (call_command b t1 f cmd)) t2 f cmd') = None \<longleftrightarrow> t2 - t1 < 2000000)) \<and>
   (is_admin (cmd_message cmd) \<longrightarrow> snd (call_command b now f cmd) = Some (func f cmd)) \<and>
   (command_log b (command cmd) = None \<longrightarrow> snd (call_command b now f cmd) = Some (func f cmd))"
proof (intro conjI impI)
  show "SPAM_THROTTLE = 2"
    by (simp add: SPAM_THROTTLE_def)
next
  assume "\<not> is_admin (cmd_message cmd) \<and> command_log b (command cmd) = Some logged"
  then show "snd (call_command b now f cmd) = None \<longleftrightarrow>
         seconds (now - logged) <
           (if last_command b = Some (entry_of cmd) then SPAM_THROTTLE * 3 else SPAM_THROTTLE)"
    by (simp add: call_command_throttled_iff threshold_def)
next
  assume "\<not> is_admin (cmd_message cmd) \<and> snd (call_command b t1 f cmd) \<noteq> None \<and>
    0 \<le> t2 - t1 \<and> t2 - t1 < 86400000000"
  then show "snd (call_command (fst (call_command b t1 f cmd)) t2 f cmd) = None \<longleftrightarrow> t2 - t1 < 6000000"
    using second_call [of b t1 f cmd cmd t2 f] by simp
next
  assume "\<not> is_admin (cmd_message cmd') \<and> snd (call_command b t1 f cmd) \<noteq> None \<and>
    command cmd' = command cmd \<and> entry_of cmd' \<noteq> entry_of cmd \<and>
    0 \<le> t2 - t1 \<and> t2 - t1 < 86400000000"
  then show "snd (call_command (fst (call_command b t1 f cmd)) t2 f cmd') = None \<longleftrightarrow> t2 - t1 < 2000000"
    using second_call [of b t1 f cmd cmd' t2 f] by simp
next
  assume "is_admin (cmd_message cmd)"
  then have "snd (call_command b now f cmd) \<noteq> None"
    by (simp add: call_command_throttled_iff)
  then show "snd (call_command b now f cmd) = Some (func f cmd)"
    using fired_iff [of b now f cmd] by blast
next
  assume "command_log b (command cmd) = None"
  then have "snd (call_command b now f cmd) \<noteq> None"
    by (simp add: call_command_throttled_iff)
  then show "snd (call_command b now f cmd) = Some (func f cmd)"
    using fired_iff [of b now f cmd] by blast
qed

theorem command_throttle_witness:
  "\<not> is_admin (cmd_message alice_roll) \<and>
   command_log (fst (call_command empty_bot 0 roll alice_roll)) (command alice_roll) = Some 0 \<and>
   snd (call_command (fst (call_command empty_bot 0 roll alice_roll)) 3000000 roll alice_roll) = None \<and>
   snd (call_command empty_bot 0 roll alice_roll) \<noteq> None \<and>
   snd (call_command (fst (call_command empty_bot 0 roll alice_roll)) 7000000 roll alice_roll) \<noteq> None \<and>
   \<not> is_admin (cmd_message bob_roll) \<and> command bob_roll = command alice_roll \<and>
   entry_of bob_roll \<noteq> entry_of alice_roll \<and>
   snd (call_command (fst (call_command empty_bot 0 roll alice_roll)) 1000000 roll bob_roll) = None \<and>
   snd (call_command (fst (call_command empty_bot 0 roll alice_roll)) 2000000 roll bob_roll) \<noteq> None \<and>
   is_admin (cmd_message admin_roll) \<and>
   snd (call_command (fst (call_command empty_bot 0 roll admin_roll)) 0 roll admin_roll) =
     Some (func roll admin_roll) \<and>
   command_log empty_bot (command alice_roll) = None"
proof -
  let ?b = "fst (call_command empty_bot 0 roll alice_roll)"
  have a: "\<not> is_admin (cmd_message alice_roll)" "\<not> is_admin (cmd_message bob_roll)"
    "is_admin (cmd_message admin_roll)" "command bob_roll = command alice_roll"
    "entry_of bob_roll \<noteq> entry_of alice_roll" "command_log empty_bot (command alice_roll) = None"
    by (simp_all add: fixture_defs admin_roll_def entry_of_def)
  have l: "command_log ?b (command alice_roll) = Some 0"
    "last_command ?b = Some (entry_of alice_roll)"
    by (simp_all add: alice_first) (simp_all add: fixture_defs entry_of_def)
  from command_throttle [of alice_roll empty_bot _ 0 roll 0 7000000 bob_roll] a
  have first: "snd (call_command empty_bot 0 roll alice_roll) \<noteq> None"
    by simp
  from command_throttle [of alice_roll ?b 0 3000000 roll 0 0 bob_roll] a l
  have one: "snd (call_command ?b 3000000 roll alice_roll) = None"
    by (simp add: seconds_def)
  from command_throttle [of alice_roll empty_bot _ 0 roll 0 7000000 bob_roll] a first
  have two: "snd (call_command ?b 7000000 roll alice_roll) \<noteq> None"
    by simp
  from command_throttle [of alice_roll empty_bot _ 0 roll 0 1000000 bob_roll] a first
  have three: "snd (call_command ?b 1000000 roll bob_roll) = None"
    by simp
  from command_throttle [of alice_roll empty_bot _ 0 roll 0 2000000 bob_roll] a first
  have four: "snd (call_command ?b 2000000 roll bob_roll) \<noteq> None"
    by simp
  from command_throttle [of admin_roll "fst (call_command empty_bot 0 roll admin_roll)" _ 0 roll 0 0 bob_roll] a
  have five: "snd (call_command (fst (call_command empty_bot 0 roll admin_roll)) 0 roll admin_roll) =
     Some (func roll admin_roll)"
    by simp
  from a l one first two three four five show ?thesis by simp
qed

text \<open>
  The claim as written fails: of two identical commands of one user 3 seconds apart,
  the second is dropped.
\<close>

theorem identical_command_after_3s_dropped:
  "\<not> is_admin (cmd_message alice_roll) \<and>
   snd (call_command empty_bot 0 roll alice_roll) = Some (func roll alice_roll) \<and>
   snd (call_command (fst (call_command empty_bot 0 roll alice_roll)) 3000000 roll alice_roll) = None"
  by (simp add: alice_first)
    (simp add: call_command_def Let_def fixture_defs seconds_def SPAM_THROTTLE_def)

section \<open>Properties of the reply throttle\<close>

text \<open>
  A batch of one reply is handled as the comment in the source says: the reply is
  dropped when the same text was logged for the channel less than 2 seconds before
  (by the seconds of the difference), and its log time is set to now either way.
\<close>

lemma throttle_replies_done:
  "length final_replies \<le> i \<Longrightarrow> throttle_replies now c i final_replies log = (final_replies, log)"
  by (subst throttle_replies.simps) simp

lemma single_reply:
  "throttle_replies now c 0 [reply] log =
     ((case (case log c of None \<Rightarrow> None | Some l \<Rightarrow> l reply) of
         None \<Rightarrow> [reply]
       | Some logged \<Rightarrow> if seconds (now - logged) < SPAM_THROTTLE then [] else [reply]),
      log(c \<mapsto> (case log c of None \<Rightarrow> Map.empty | Some l \<Rightarrow> l)(reply \<mapsto> now)))"
proof (cases "log c")
  case None
  then show ?thesis
    by (subst throttle_replies.simps) (simp add: Let_def throttle_replies_done domIff)
next
  case (Some l)
  then show ?thesis
    by (subst throttle_replies.simps)
      (cases "l reply"; simp add: Let_def throttle_replies_done domIff)
qed

lemma complaint_replies:
  "collect_replies [] (replies chan) complaint = [''hello yourself'', ''I always work'']"
  by (simp add: chan_def complaint_def Message_def greets_def always_works_def is_true_def startswith_def)

lemma complaint_first:
  "call_repliers empty_bot 0 chan complaint =
     (empty_bot\<lparr>reply_log := [''#chan'' \<mapsto> [''hello yourself'' \<mapsto> 0, ''I always work'' \<mapsto> 0]]\<rparr>,
      [''hello yourself'', ''I always work''])"
  unfolding call_repliers_def complaint_replies
  by (simp add: Let_def empty_bot_def throttle_replies.simps)
    (simp add: chan_def complaint_def Message_def)

text \<open>
  Claim C5 does not hold of the code. The loop removes a throttled reply from the list
  it is running over, so the reply after it is never looked at. Here a message draws
  two replies; both are sent and logged. One second later the same message draws them
  again: the first is dropped, the second is sent again and its log entry still holds
  the earlier time.
\<close>

theorem second_reply_of_batch_not_throttled:
  "\<not> is_admin complaint \<and>
   snd (call_repliers empty_bot 0 chan complaint) = [''hello yourself'', ''I always work''] \<and>
   snd (call_repliers (fst (call_repliers empty_bot 0 chan complaint)) 1000000 chan complaint) =
     [''I always work''] \<and>
   reply_log (fst (call_repliers (fst (call_repliers empty_bot 0 chan complaint)) 1000000 chan complaint))
     ''#chan'' = Some [''I always work'' \<mapsto> 0, ''hello yourself'' \<mapsto> 1000000]"
  unfolding complaint_first
  unfolding call_repliers_def complaint_replies
  by (simp add: Let_def empty_bot_def seconds_def SPAM_THROTTLE_def throttle_replies.simps)
    (simp add: chan_def complaint_def Message_def)

section \<open>Properties of command resolution\<close>

text \<open>
  The first word of a message that starts with \<open>!\<close> is \<open>!\<close> followed by the text up
  to the first white space.
\<close>

lemma split_from_word:
  "acc \<noteq> [] \<Longrightarrow> \<exists>ws. split_from acc xs = (rev acc @ takeWhile (\<lambda>c. \<not> is_space c) xs) # ws"
proof (induction xs arbitrary: acc)
  case Nil
  then show ?case by simp
next
  case (Cons c cs)
  show ?case
  proof (cases "is_space c")
    case True
    with Cons.prems show ?thesis by simp
  next
    case False
    from Cons.IH [of "c # acc"] obtain ws where
      "split_from (c # acc) cs = (rev (c # acc) @ takeWhile (\<lambda>c. \<not> is_space c) cs) # ws"
      by auto
    with False show ?thesis by simp
  qed
qed

lemma strip_command: "strip (CHR ''!'' # rest) = CHR ''!'' # rev (dropWhile is_space (rev rest))"
proof -
  have "\<not> is_space CHR ''!''" by (simp add: is_space_def)
  then show ?thesis by (simp add: strip_def dropWhile_append)
qed

lemma first_word_rstrip:
  "takeWhile (\<lambda>c. \<not> is_space c) (rev (dropWhile is_space (rev xs))) = takeWhile (\<lambda>c. \<not> is_space c) xs"
proof -
  let ?a = "rev (dropWhile is_space (rev xs))" and ?t = "rev (takeWhile is_space (rev xs))"
  have "rev (takeWhile is_space (rev xs) @ dropWhile is_space (rev xs)) = ?a @ ?t"
    by (rule rev_append)
  then have xs: "xs = ?a @ ?t" by (simp only: takeWhile_dropWhile_id rev_rev_ident)
  have t: "\<forall>c\<in>set ?t. is_space c"
    using set_takeWhileD [of _ is_space "rev xs"] by auto
  then have "takeWhile (\<lambda>c. \<not> is_space c) ?t = []"
    by (cases ?t) auto
  then have "takeWhile (\<lambda>c. \<not> is_space c) (?a @ ?t) = takeWhile (\<lambda>c. \<not> is_space c) ?a"
  proof (cases "\<forall>c\<in>set ?a. \<not> is_space c")
    case True
    then have a: "takeWhile (\<lambda>c. \<not> is_space c) ?a = ?a"
      by (simp only: takeWhile_eq_all_conv)
    from True have "takeWhile (\<lambda>c. \<not> is_space c) (?a @ ?t) = ?a @ takeWhile (\<lambda>c. \<not> is_space c) ?t"
      by (intro takeWhile_append2) blast
    also have "\<dots> = ?a @ []"
      using \<open>takeWhile (\<lambda>c. \<not> is_space c) ?t = []\<close> by (rule arg_cong)
    also have "\<dots> = ?a" by (rule append_Nil2)
    also have "\<dots> = takeWhile (\<lambda>c. \<not> is_space c) ?a" using a by (rule sym)
    finally show ?thesis .
  next
    case False
    then obtain c where "c \<in> set ?a" and "\<not> \<not> is_space c" by blast
    then show ?thesis by (rule takeWhile_append1)
  qed
  with xs show ?thesis by simp
qed

lemma command_words:
  "\<exists>ws. words (Message u tgt (CHR ''!'' # rest)) = (CHR ''!'' # takeWhile (\<lambda>c. \<not> is_space c) rest) # ws"
proof -
  have n: "\<not> is_space CHR ''!''" by (simp add: is_space_def)
  from split_from_word [of "[CHR ''!'']" "rev (dropWhile is_space (rev rest))"]
  obtain ws where "split_from [CHR ''!''] (rev (dropWhile is_space (rev rest))) =
      (CHR ''!'' # takeWhile (\<lambda>c. \<not> is_space c) (rev (dropWhile is_space (rev rest)))) # ws"
    by auto
  with n show ?thesis
    by (simp add: Message_def strip_command split_def first_word_rstrip)
qed

lemma filter_single:
  assumes "distinct xs"
  shows "(\<exists>!x. x \<in> set xs \<and> P x) \<longleftrightarrow> length (filter P xs) = 1"
proof
  assume "\<exists>!x. x \<in> set xs \<and> P x"
  then obtain x where x: "x \<in> set xs" "P x" and u: "\<And>y. y \<in> set xs \<Longrightarrow> P y \<Longrightarrow> y = x"
    by blast
  have "{y \<in> set xs. P y} = {x}"
  proof (rule set_eqI)
    fix y
    show "y \<in> {y \<in> set xs. P y} \<longleftrightarrow> y \<in> {x}"
      using x u [of y] by blast
  qed
  then have "set (filter P xs) = {x}" by (simp only: set_filter)
  moreover from assms have "distinct (filter P xs)" by simp
  ultimately have "length (filter P xs) = card {x}"
    using distinct_card [of "filter P xs"] by simp
  then show "length (filter P xs) = 1" by simp
next
  assume "length (filter P xs) = 1"
  then obtain x where "filter P xs = [x]"
    by (cases "filter P xs") auto
  then have "set (filter P xs) = {x}" by simp
  then have "{y \<in> set xs. P y} = {x}" by (simp only: set_filter)
  then have "\<And>y. (y \<in> set xs \<and> P y) = (y = x)" by blast
  then show "\<exists>!x. x \<in> set xs \<and> P x" by (intro ex1I [of _ x]) blast+
qed

lemma resolve_exact:
  assumes "words m = w # ws" and "map_of (commands ch) (lower (drop 1 w)) = Some f"
  shows "resolve_command ch m = Inr (Some (f, \<lparr>cmd_message = m, command = w, args = ws\<rparr>))"
  using assms by (simp add: resolve_command_def CommandMessage_def)

lemma resolve_prefix:
  assumes "words m = w # ws" and "map_of (commands ch) (lower (drop 1 w)) = None"
    and "filter (\<lambda>cmd. startswith cmd (lower (drop 1 w))) (map fst (commands ch)) = [name]"
  shows "\<exists>f. map_of (commands ch) name = Some f \<and>
    resolve_command ch m = Inr (Some (f, \<lparr>cmd_message = m, command = CHR ''!'' # name, args = ws\<rparr>))"
proof -
  from assms(3) have "name \<in> set (filter (\<lambda>cmd. startswith cmd (lower (drop 1 w))) (map fst (commands ch)))"
    by simp
  then have "name \<in> fst ` set (commands ch)" by auto
  then obtain f where f: "map_of (commands ch) name = Some f"
    by (cases "map_of (commands ch) name") (auto simp: map_of_eq_None_iff)
  with assms show ?thesis
    by (simp add: resolve_command_def CommandMessage_def CMD_PREFIX_def)
qed

lemma resolve_none:
  assumes "words m = w # ws" and "map_of (commands ch) (lower (drop 1 w)) = None"
    and "length (filter (\<lambda>cmd. startswith cmd (lower (drop 1 w))) (map fst (commands ch))) \<noteq> 1"
  shows "resolve_command ch m = Inr None"
  using assms by (simp add: resolve_command_def Let_def)

lemma resolve_unique:
  assumes "distinct (map fst (commands ch))" and "words m = (CHR ''!'' # typed) # ws"
    and "map_of (commands ch) (lower typed) = None"
    and "\<exists>!name. name \<in> fst ` set (commands ch) \<and> startswith name (lower typed)"
  shows "\<exists>name f. (name, f) \<in> set (commands ch) \<and> startswith name (lower typed) \<and>
      resolve_command ch m =
        Inr (Some (f, \<lparr>cmd_message = m, command = CHR ''!'' # name, args = ws\<rparr>))"
proof -
  from assms(4) have "\<exists>!name. name \<in> set (map fst (commands ch)) \<and> startswith name (lower typed)"
    by simp
  with assms(1) have "length (filter (\<lambda>cmd. startswith cmd (lower typed)) (map fst (commands ch))) = 1"
    using filter_single [of "map fst (commands ch)" "\<lambda>cmd. startswith cmd (lower typed)"] by blast
  then obtain name where n: "filter (\<lambda>cmd. startswith cmd (lower typed)) (map fst (commands ch)) = [name]"
    by (cases "filter (\<lambda>cmd. startswith cmd (lower typed)) (map fst (commands ch))") auto
  then have "name \<in> set (filter (\<lambda>cmd. startswith cmd (lower typed)) (map fst (commands ch)))"
    by simp
  then have s: "startswith name (lower typed)" by simp
  from resolve_prefix [of m "CHR ''!'' # typed" ws ch name] assms(2,3) n
  obtain f where f: "map_of (commands ch) name = Some f"
    "resolve_command ch m = Inr (Some (f, \<lparr>cmd_message = m, command = CHR ''!'' # name, args = ws\<rparr>))"
    by auto
  from f(1) have "(name, f) \<in> set (commands ch)" by (rule map_of_SomeD)
  with s f(2) show ?thesis by blast
qed

lemma resolve_not_unique:
  assumes "distinct (map fst (commands ch))" and "words m = (CHR ''!'' # typed) # ws"
    and "map_of (commands ch) (lower typed) = None"
    and "\<not> (\<exists>!name. name \<in> fst ` set (commands ch) \<and> startswith name (lower typed))"
  shows "resolve_command ch m = Inr None"
proof -
  from assms(4) have "\<not> (\<exists>!name. name \<in> set (map fst (commands ch)) \<and> startswith name (lower typed))"
    by simp
  with assms(1) have "length (filter (\<lambda>cmd. startswith cmd (lower typed)) (map fst (commands ch))) \<noteq> 1"
    using filter_single [of "map fst (commands ch)" "\<lambda>cmd. startswith cmd (lower typed)"] by blast
  with assms(2,3) show ?thesis
    using resolve_none [of m "CHR ''!'' # typed" ws ch] by simp
qed

text \<open>
  Claim C2. The command dictionary has each name once. For a message whose first word
  is \<open>!\<close> followed by the typed text, the key is the typed text in lower case. A
  handler registered under the key is the one resolved, with the command as typed.
  Otherwise, when exactly one registered name starts with the key, the handler of
  that name is resolved and the command is \<open>!\<close> followed by the full name. Otherwise,
  with no such name or more than one, nothing is resolved: the bot is left as it was,
  no handler is called and nothing is sent. A resolved handler is handed to
  \<open>_maybe_send_cmd_reply\<close> with the resolved command.
\<close>

theorem command_resolution:
  assumes "distinct (map fst (commands ch))" and "words m = (CHR ''!'' # typed) # ws"
  shows
   "(\<forall>f. map_of (commands ch) (lower typed) = Some f \<longrightarrow>
       resolve_command ch m =
         Inr (Some (f, \<lparr>cmd_message = m, command = CHR ''!'' # typed, args = ws\<rparr>))) \<and>
    (map_of (commands ch) (lower typed) = None \<and>
     (\<exists>!name. name \<in> fst ` set (commands ch) \<and> startswith name (lower typed)) \<longrightarrow>
       (\<exists>name f. (name, f) \<in> set (commands ch) \<and> startswith name (lower typed) \<and>
          resolve_command ch m =
            Inr (Some (f, \<lparr>cmd_message = m, command = CHR ''!'' # name, args = ws\<rparr>)))) \<and>
    (map_of (commands ch) (lower typed) = None \<and>
     \<not> (\<exists>!name. name \<in> fst ` set (commands ch) \<and> startswith name (lower typed)) \<longrightarrow>
       resolve_command ch m = Inr None \<and> handle_command b now m ch = Inr (b, None, [])) \<and>
    (\<forall>f cmd. resolve_command ch m = Inr (Some (f, cmd)) \<longrightarrow>
       handle_command b now m ch = Inr (maybe_send_cmd_reply b now f cmd))"
proof (intro conjI allI impI)
  fix f
  assume "map_of (commands ch) (lower typed) = Some f"
  with assms(2) show "resolve_command ch m =
         Inr (Some (f, \<lparr>cmd_message = m, command = CHR ''!'' # typed, args = ws\<rparr>))"
    using resolve_exact [of m "CHR ''!'' # typed" ws ch f] by simp
next
  assume "map_of (commands ch) (lower typed) = None \<and>
     (\<exists>!name. name \<in> fst ` set (commands ch) \<and> startswith name (lower typed))"
  with assms show "\<exists>name f. (name, f) \<in> set (commands ch) \<and> startswith name (lower typed) \<and>
          resolve_command ch m =
            Inr (Some (f, \<lparr>cmd_message = m, command = CHR ''!'' # name, args = ws\<rparr>))"
    using resolve_unique [of ch m typed ws] by blast
next
  assume a: "map_of (commands ch) (lower typed) = None \<and>
     \<not> (\<exists>!name. name \<in> fst ` set (commands ch) \<and> startswith name (lower typed))"
  with assms show r: "resolve_command ch m = Inr None"
    using resolve_not_unique [of ch m typed ws] by blast
  then show "handle_command b now m ch = Inr (b, None, [])"
    by (simp add: handle_command_def)
next
  fix f cmd
  assume "resolve_command ch m = Inr (Some (f, cmd))"
  then show "handle_command b now m ch = Inr (maybe_send_cmd_reply b now f cmd)"
    by (simp add: handle_command_def)
qed

lemmas says_defs = alice_says_def Message_def User_def normalize_host_def normalize_ident_def after_at_def
  strip_def split_def is_space_def

lemma chan_commands: "commands chan = [(''roll'', roll), (''repo'', repo)]"
  by (simp add: chan_def)

lemma words_ROLL: "words (alice_says ''!ROLL 6'') = [''!ROLL'', ''6'']"
  by (simp add: says_defs)

lemma words_rol: "words (alice_says ''!rol 6'') = [''!rol'', ''6'']"
  by (simp add: says_defs)

lemma words_r: "words (alice_says ''!r'') = [''!r'']"
  by (simp add: says_defs)

lemma lower_ROLL: "lower ''ROLL'' = ''roll''" and lower_rol: "lower ''rol'' = ''rol''"
  and lower_r: "lower ''r'' = ''r''"
  by (simp_all add: lower_def lower_char_def)

lemma unique_rol: "\<exists>!name. name \<in> fst ` set (commands chan) \<and> startswith name ''rol''"
proof (rule ex1I [of _ "''roll''"])
  show "''roll'' \<in> fst ` set (commands chan) \<and> startswith ''roll'' ''rol''"
    by (simp add: chan_commands startswith_def)
next
  fix name
  assume "name \<in> fst ` set (commands chan) \<and> startswith name ''rol''"
  then have "(name = ''roll'' \<or> name = ''repo'') \<and> startswith name ''rol''"
    by (simp add: chan_commands)
  then show "name = ''roll''"
    by (auto simp: startswith_def)
qed

lemma ambiguous_r: "\<not> (\<exists>!name. name \<in> fst ` set (commands chan) \<and> startswith name ''r'')"
proof
  assume "\<exists>!name. name \<in> fst ` set (commands chan) \<and> startswith name ''r''"
  moreover have "''roll'' \<in> fst ` set (commands chan) \<and> startswith ''roll'' ''r''"
    and "''repo'' \<in> fst ` set (commands chan) \<and> startswith ''repo'' ''r''"
    by (simp_all add: chan_commands startswith_def)
  ultimately have "''roll'' = ''repo''" by blast
  then show False by simp
qed

theorem command_resolution_witness:
  "distinct (map fst (commands chan)) \<and>
   words (alice_says ''!ROLL 6'') = (CHR ''!'' # ''ROLL'') # [''6''] \<and>
   map_of (commands chan) (lower ''ROLL'') = Some roll \<and>
   resolve_command chan (alice_says ''!ROLL 6'') =
     Inr (Some (roll, \<lparr>cmd_message = alice_says ''!ROLL 6'', command = ''!ROLL'', args = [''6'']\<rparr>)) \<and>
   handle_command empty_bot 0 (alice_says ''!ROLL 6'') chan =
     Inr (maybe_send_cmd_reply empty_bot 0 roll
       \<lparr>cmd_message = alice_says ''!ROLL 6'', command = ''!ROLL'', args = [''6'']\<rparr>) \<and>
   words (alice_says ''!rol 6'') = (CHR ''!'' # ''rol'') # [''6''] \<and>
   map_of (commands chan) (lower ''rol'') = None \<and>
   (\<exists>!name. name \<in> fst ` set (commands chan) \<and> startswith name (lower ''rol'')) \<and>
   (\<exists>name f. (name, f) \<in> set (commands chan) \<and> startswith name (lower ''rol'') \<and>
      resolve_command chan (alice_says ''!rol 6'') =
        Inr (Some (f, \<lparr>cmd_message = alice_says ''!rol 6'', command = CHR ''!'' # name, args = [''6'']\<rparr>))) \<and>
   words (alice_says ''!r'') = (CHR ''!'' # ''r'') # [] \<and>
   map_of (commands chan) (lower ''r'') = None \<and>
   \<not> (\<exists>!name. name \<in> fst ` set (commands chan) \<and> startswith name (lower ''r'')) \<and>
   resolve_command chan (alice_says ''!r'') = Inr None \<and>
   handle_command empty_bot 0 (alice_says ''!r'') chan = Inr (empty_bot, None, [])"
proof -
  have d: "distinct (map fst (commands chan))"
    by (simp add: chan_commands)
  have m: "map_of (commands chan) (lower ''ROLL'') = Some roll"
    "map_of (commands chan) (lower ''rol'') = None" "map_of (commands chan) (lower ''r'') = None"
    by (simp_all add: chan_commands lower_ROLL lower_rol lower_r)
  have u: "\<exists>!name. name \<in> fst ` set (commands chan) \<and> startswith name (lower ''rol'')"
    "\<not> (\<exists>!name. name \<in> fst ` set (commands chan) \<and> startswith name (lower ''r''))"
    using unique_rol ambiguous_r by (simp_all add: lower_rol lower_r)
  from command_resolution [OF d, of "alice_says ''!ROLL 6''" "''ROLL''" "[''6'']" empty_bot 0]
    words_ROLL m(1)
  have one: "resolve_command chan (alice_says ''!ROLL 6'') =
     Inr (Some (roll, \<lparr>cmd_message = alice_says ''!ROLL 6'', command = ''!ROLL'', args = [''6'']\<rparr>))"
    "handle_command empty_bot 0 (alice_says ''!ROLL 6'') chan =
     Inr (maybe_send_cmd_reply empty_bot 0 roll
       \<lparr>cmd_message = alice_says ''!ROLL 6'', command = ''!ROLL'', args = [''6'']\<rparr>)"
    by simp_all
  from command_resolution [OF d, of "alice_says ''!rol 6''" "''rol''" "[''6'']" empty_bot 0]
    words_rol m(2) u(1)
  have two: "\<exists>name f. (name, f) \<in> set (commands chan) \<and> startswith name (lower ''rol'') \<and>
      resolve_command chan (alice_says ''!rol 6'') =
        Inr (Some (f, \<lparr>cmd_message = alice_says ''!rol 6'', command = CHR ''!'' # name, args = [''6'']\<rparr>))"
    by blast
  from command_resolution [OF d, of "alice_says ''!r''" "''r''" "[]" empty_bot 0]
    words_r m(3) u(2)
  have three: "resolve_command chan (alice_says ''!r'') = Inr None"
    "handle_command empty_bot 0 (alice_says ''!r'') chan = Inr (empty_bot, None, [])"
    by blast+
  from d m u one two three words_ROLL words_rol words_r show ?thesis
    by (intro conjI) simp_all
qed

section \<open>Properties of the command log's keys\<close>

lemma single_element: "length xs = 1 \<Longrightarrow> \<exists>x. xs = [x]"
  by (cases xs) auto

lemma resolve_cmd_message:
  assumes "resolve_command ch m = Inr (Some (f, cmd))"
  shows "cmd_message cmd = m"
proof (cases "words m")
  case Nil
  with assms show ?thesis by (simp add: resolve_command_def)
next
  case (Cons w ws)
  let ?ms = "filter (\<lambda>cmd. startswith cmd (lower (drop 1 w))) (map fst (commands ch))"
  show ?thesis
  proof (cases "map_of (commands ch) (lower (drop 1 w))")
    case (Some g)
    with Cons assms show ?thesis
      using resolve_exact [of m w ws ch g] by simp
  next
    case None
    show ?thesis
    proof (cases "length ?ms = 1")
      case False
      with Cons None assms show ?thesis
        using resolve_none [of m w ws ch] by simp
    next
      case True
      then obtain name where "?ms = [name]"
        using single_element [of ?ms] by blast
      with Cons None assms show ?thesis
        using resolve_prefix [of m w ws ch name] by auto
    qed
  qed
qed

lemma maybe_send_bot:
  "fst (maybe_send_cmd_reply b now f cmd) = fst (call_command b now f cmd)"
  by (cases "call_command b now f cmd") (auto simp: maybe_send_cmd_reply_def split: option.splits)

lemma maybe_send_dropped:
  "snd (call_command b now f cmd) = None \<Longrightarrow> maybe_send_cmd_reply b now f cmd = (b, None, [])"
  using call_command_dropped [of b now f cmd] by (simp add: maybe_send_cmd_reply_def)

lemma call_command_other_key:
  assumes "k \<noteq> command cmd"
  shows "command_log (fst (call_command b now f cmd)) k = command_log b k"
proof (cases "snd (call_command b now f cmd) = None")
  case True
  then have "call_command b now f cmd = (b, None)" by (rule call_command_dropped)
  then show ?thesis by simp
next
  case False
  then have "call_command b now f cmd =
     (b\<lparr>last_command := Some (entry_of cmd), command_log := (command_log b)(command cmd \<mapsto> now)\<rparr>,
      Some (func f cmd))" by (rule call_command_fired)
  with assms show ?thesis by simp
qed

lemma resolve_same_key:
  assumes "words m1 = (CHR ''!'' # typed1) # ws1" and "words m2 = (CHR ''!'' # typed2) # ws2"
    and "lower typed1 = lower typed2" and "map_of (commands ch) (lower typed1) = None"
    and "resolve_command ch m1 = Inr (Some (f, cmd1))"
  shows "\<exists>cmd2. resolve_command ch m2 = Inr (Some (f, cmd2)) \<and> command cmd2 = command cmd1"
proof -
  let ?ms = "filter (\<lambda>cmd. startswith cmd (lower typed1)) (map fst (commands ch))"
  have "length ?ms = 1"
  proof (rule ccontr)
    assume "length ?ms \<noteq> 1"
    with assms(1,4) have "resolve_command ch m1 = Inr None"
      using resolve_none [of m1 "CHR ''!'' # typed1" ws1 ch] by simp
    with assms(5) show False by simp
  qed
  then obtain name where n: "?ms = [name]"
    using single_element [of ?ms] by blast
  from resolve_prefix [of m1 "CHR ''!'' # typed1" ws1 ch name] assms(1,4) n
  obtain f1 where f1: "map_of (commands ch) name = Some f1"
    "resolve_command ch m1 =
       Inr (Some (f1, \<lparr>cmd_message = m1, command = CHR ''!'' # name, args = ws1\<rparr>))"
    by auto
  from resolve_prefix [of m2 "CHR ''!'' # typed2" ws2 ch name] assms(2,3,4) n
  obtain f2 where f2: "map_of (commands ch) name = Some f2"
    "resolve_command ch m2 =
       Inr (Some (f2, \<lparr>cmd_message = m2, command = CHR ''!'' # name, args = ws2\<rparr>))"
    by auto
  from f1 f2 assms(5) show ?thesis by auto
qed

text \<open>
  Claim C9, as amended. The command log is keyed by the command of the resolved
  command message, \<open>!\<close> included: a call that goes through stores its time under that
  string. On an exact name match the key is the command as typed, capitals kept; on a
  match by unique prefix it is \<open>!\<close> followed by the full registered name. Hence two
  exact-name invocations typed differently (as when they differ in letter case) have
  different keys, and handling the one leaves the log entry of the other as it was.
  Two unique-prefix invocations whose typed text differs only in letter case resolve
  to the same handler and the same key, and do throttle each other: within 2 seconds
  of a first one that went through, the second of a sender who is not an admin is
  dropped.
\<close>

theorem command_log_keys:
  assumes "distinct (map fst (commands ch))" and "words m1 = (CHR ''!'' # typed1) # ws1"
    and "words m2 = (CHR ''!'' # typed2) # ws2"
  shows
   "(\<forall>f cmd. resolve_command ch m1 = Inr (Some (f, cmd)) \<and> snd (call_command b now f cmd) \<noteq> None \<longrightarrow>
       (\<exists>r sent. handle_command b now m1 ch =
          Inr (b\<lparr>last_command := Some (entry_of cmd),
                  command_log := (command_log b)(command cmd \<mapsto> now)\<rparr>, r, sent))) \<and>
    (\<forall>f. map_of (commands ch) (lower typed1) = Some f \<longrightarrow>
       (\<exists>cmd. resolve_command ch m1 = Inr (Some (f, cmd)) \<and> command cmd = CHR ''!'' # typed1)) \<and>
    (map_of (commands ch) (lower typed1) = None \<and>
     (\<exists>!name. name \<in> fst ` set (commands ch) \<and> startswith name (lower typed1)) \<longrightarrow>
       (\<exists>name f cmd. (name, f) \<in> set (commands ch) \<and> startswith name (lower typed1) \<and>
          resolve_command ch m1 = Inr (Some (f, cmd)) \<and> command cmd = CHR ''!'' # name)) \<and>
    (typed1 \<noteq> typed2 \<and> map_of (commands ch) (lower typed1) \<noteq> None \<and>
     map_of (commands ch) (lower typed2) \<noteq> None \<longrightarrow>
       (\<exists>b1 r sent. handle_command b now m1 ch = Inr (b1, r, sent) \<and>
          command_log b1 (CHR ''!'' # typed2) = command_log b (CHR ''!'' # typed2))) \<and>
    (\<forall>f cmd1. lower typed1 = lower typed2 \<and> map_of (commands ch) (lower typed1) = None \<and>
       resolve_command ch m1 = Inr (Some (f, cmd1)) \<longrightarrow>
       (\<exists>cmd2. resolve_command ch m2 = Inr (Some (f, cmd2)) \<and> command cmd2 = command cmd1 \<and>
          (\<not> is_admin m2 \<and> snd (call_command b now f cmd1) \<noteq> None \<and>
           0 \<le> later - now \<and> later - now < 2000000 \<longrightarrow>
             handle_command (fst (call_command b now f cmd1)) later m2 ch =
               Inr (fst (call_command b now f cmd1), None, []))))"
proof (intro conjI allI impI)
  fix f cmd
  assume a: "resolve_command ch m1 = Inr (Some (f, cmd)) \<and> snd (call_command b now f cmd) \<noteq> None"
  then have "handle_command b now m1 ch = Inr (maybe_send_cmd_reply b now f cmd)"
    by (simp add: handle_command_def)
  moreover from a have "fst (maybe_send_cmd_reply b now f cmd) =
      b\<lparr>last_command := Some (entry_of cmd), command_log := (command_log b)(command cmd \<mapsto> now)\<rparr>"
    using call_command_fired [of b now f cmd] by (simp add: maybe_send_bot)
  ultimately show "\<exists>r sent. handle_command b now m1 ch =
          Inr (b\<lparr>last_command := Some (entry_of cmd),
                  command_log := (command_log b)(command cmd \<mapsto> now)\<rparr>, r, sent)"
    by (cases "maybe_send_cmd_reply b now f cmd") auto
next
  fix f
  assume "map_of (commands ch) (lower typed1) = Some f"
  with assms(2) show "\<exists>cmd. resolve_command ch m1 = Inr (Some (f, cmd)) \<and> command cmd = CHR ''!'' # typed1"
    using resolve_exact [of m1 "CHR ''!'' # typed1" ws1 ch f] by simp
next
  assume "map_of (commands ch) (lower typed1) = None \<and>
     (\<exists>!name. name \<in> fst ` set (commands ch) \<and> startswith name (lower typed1))"
  with assms(1,2) have "\<exists>name f. (name, f) \<in> set (commands ch) \<and> startswith name (lower typed1) \<and>
      resolve_command ch m1 =
        Inr (Some (f, \<lparr>cmd_message = m1, command = CHR ''!'' # name, args = ws1\<rparr>))"
    using resolve_unique [of ch m1 typed1 ws1] by blast
  then obtain name f where "(name, f) \<in> set (commands ch)" "startswith name (lower typed1)"
    "resolve_command ch m1 =
        Inr (Some (f, \<lparr>cmd_message = m1, command = CHR ''!'' # name, args = ws1\<rparr>))"
    by blast
  then show "\<exists>name f cmd. (name, f) \<in> set (commands ch) \<and> startswith name (lower typed1) \<and>
          resolve_command ch m1 = Inr (Some (f, cmd)) \<and> command cmd = CHR ''!'' # name"
    by (intro exI [of _ name] exI [of _ f]
        exI [of _ "\<lparr>cmd_message = m1, command = CHR ''!'' # name, args = ws1\<rparr>"]) simp
next
  assume a: "typed1 \<noteq> typed2 \<and> map_of (commands ch) (lower typed1) \<noteq> None \<and>
     map_of (commands ch) (lower typed2) \<noteq> None"
  then obtain f where "map_of (commands ch) (lower typed1) = Some f" by auto
  with assms(2) have r: "resolve_command ch m1 =
      Inr (Some (f, \<lparr>cmd_message = m1, command = CHR ''!'' # typed1, args = ws1\<rparr>))"
    using resolve_exact [of m1 "CHR ''!'' # typed1" ws1 ch f] by simp
  let ?cmd = "\<lparr>cmd_message = m1, command = CHR ''!'' # typed1, args = ws1\<rparr>"
  from r have h: "handle_command b now m1 ch = Inr (maybe_send_cmd_reply b now f ?cmd)"
    by (simp add: handle_command_def)
  from a have "typed2 \<noteq> typed1" by blast
  then have "CHR ''!'' # typed2 \<noteq> command ?cmd" by simp
  then have "command_log (fst (maybe_send_cmd_reply b now f ?cmd)) (CHR ''!'' # typed2) =
      command_log b (CHR ''!'' # typed2)"
    unfolding maybe_send_bot by (rule call_command_other_key)
  with h show "\<exists>b1 r sent. handle_command b now m1 ch = Inr (b1, r, sent) \<and>
          command_log b1 (CHR ''!'' # typed2) = command_log b (CHR ''!'' # typed2)"
    by (cases "maybe_send_cmd_reply b now f ?cmd") auto
next
  fix f cmd1
  assume a: "lower typed1 = lower typed2 \<and> map_of (commands ch) (lower typed1) = None \<and>
       resolve_command ch m1 = Inr (Some (f, cmd1))"
  with assms(2,3) obtain cmd2 where c2: "resolve_command ch m2 = Inr (Some (f, cmd2))"
    "command cmd2 = command cmd1"
    using resolve_same_key [of m1 typed1 ws1 m2 typed2 ws2 ch f cmd1] by blast
  have "\<not> is_admin m2 \<and> snd (call_command b now f cmd1) \<noteq> None \<and>
           0 \<le> later - now \<and> later - now < 2000000 \<longrightarrow>
             handle_command (fst (call_command b now f cmd1)) later m2 ch =
               Inr (fst (call_command b now f cmd1), None, [])"
  proof
    assume t: "\<not> is_admin m2 \<and> snd (call_command b now f cmd1) \<noteq> None \<and>
           0 \<le> later - now \<and> later - now < 2000000"
    from c2(1) have "cmd_message cmd2 = m2" by (rule resolve_cmd_message)
    with t have "\<not> is_admin (cmd_message cmd2)" by simp
    with t c2(2) have "snd (call_command (fst (call_command b now f cmd1)) later f cmd2) = None"
      using second_call [of b now f cmd1 cmd2 later f] by auto
    then have "maybe_send_cmd_reply (fst (call_command b now f cmd1)) later f cmd2 =
        (fst (call_command b now f cmd1), None, [])"
      by (rule maybe_send_dropped)
    with c2(1) show "handle_command (fst (call_command b now f cmd1)) later m2 ch =
               Inr (fst (call_command b now f cmd1), None, [])"
      by (simp add: handle_command_def)
  qed
  with c2 show "\<exists>cmd2. resolve_command ch m2 = Inr (Some (f, cmd2)) \<and> command cmd2 = command cmd1 \<and>
          (\<not> is_admin m2 \<and> snd (call_command b now f cmd1) \<noteq> None \<and>
           0 \<le> later - now \<and> later - now < 2000000 \<longrightarrow>
             handle_command (fst (call_command b now f cmd1)) later m2 ch =
               Inr (fst (call_command b now f cmd1), None, []))"
    by blast
qed

lemma words_ROL: "words (alice_says ''!ROL 6'') = [''!ROL'', ''6'']"
  and words_roll: "words (alice_says ''!roll 6'') = [''!roll'', ''6'']"
  by (simp_all add: says_defs)

lemma lower_ROL: "lower ''ROL'' = ''rol''" and lower_roll: "lower ''roll'' = ''roll''"
  by (simp_all add: lower_def lower_char_def)

lemma not_admin: "\<not> is_admin (alice_says text)"
  by (simp add: alice_says_def Message_def)

lemma resolve_rol:
  "resolve_command chan (alice_says ''!rol 6'') =
     Inr (Some (roll, \<lparr>cmd_message = alice_says ''!rol 6'', command = ''!roll'', args = [''6'']\<rparr>))"
  by (simp add: resolve_command_def words_rol lower_rol chan_commands startswith_def
      CommandMessage_def CMD_PREFIX_def)

lemma resolve_ROL:
  "resolve_command chan (alice_says ''!ROL 6'') =
     Inr (Some (roll, \<lparr>cmd_message = alice_says ''!ROL 6'', command = ''!roll'', args = [''6'']\<rparr>))"
  by (simp add: resolve_command_def words_ROL lower_ROL chan_commands startswith_def
      CommandMessage_def CMD_PREFIX_def)

lemma rol_first:
  "call_command empty_bot 0 roll
     \<lparr>cmd_message = alice_says ''!rol 6'', command = ''!roll'', args = [''6'']\<rparr> =
   (empty_bot\<lparr>last_command := Some (Some ''one.example'', ''!roll'', [''6'']),
      command_log := [''!roll'' \<mapsto> 0]\<rparr>, Some (Text ''Rolling for !roll''))"
  by (simp add: call_command_def Let_def empty_bot_def roll_def alice_says_def Message_def User_def
      normalize_host_def after_at_def)

theorem command_log_keys_witness:
  "distinct (map fst (commands chan)) \<and>
   words (alice_says ''!ROLL 6'') = (CHR ''!'' # ''ROLL'') # [''6''] \<and>
   words (alice_says ''!roll 6'') = (CHR ''!'' # ''roll'') # [''6''] \<and>
   map_of (commands chan) (lower ''ROLL'') = Some roll \<and>
   map_of (commands chan) (lower ''roll'') = Some roll \<and>
   ''ROLL'' \<noteq> ''roll'' \<and>
   (\<exists>cmd. resolve_command chan (alice_says ''!ROLL 6'') = Inr (Some (roll, cmd)) \<and>
      command cmd = ''!ROLL'' \<and>
      snd (call_command empty_bot 0 roll cmd) \<noteq> None \<and>
      (\<exists>r sent. handle_command empty_bot 0 (alice_says ''!ROLL 6'') chan =
         Inr (empty_bot\<lparr>last_command := Some (entry_of cmd),
                command_log := (command_log empty_bot)(command cmd \<mapsto> 0)\<rparr>, r, sent))) \<and>
   (\<exists>b1 r sent. handle_command empty_bot 0 (alice_says ''!ROLL 6'') chan = Inr (b1, r, sent) \<and>
      command_log b1 ''!roll'' = command_log empty_bot ''!roll'') \<and>
   words (alice_says ''!rol 6'') = (CHR ''!'' # ''rol'') # [''6''] \<and>
   words (alice_says ''!ROL 6'') = (CHR ''!'' # ''ROL'') # [''6''] \<and>
   lower ''rol'' = lower ''ROL'' \<and>
   map_of (commands chan) (lower ''rol'') = None \<and>
   (\<exists>!name. name \<in> fst ` set (commands chan) \<and> startswith name (lower ''rol'')) \<and>
   (\<exists>name f cmd. (name, f) \<in> set (commands chan) \<and> startswith name (lower ''rol'') \<and>
      resolve_command chan (alice_says ''!rol 6'') = Inr (Some (f, cmd)) \<and>
      command cmd = CHR ''!'' # name) \<and>
   \<not> is_admin (alice_says ''!ROL 6'') \<and>
   (\<exists>cmd1 cmd2. resolve_command chan (alice_says ''!rol 6'') = Inr (Some (roll, cmd1)) \<and>
      snd (call_command empty_bot 0 roll cmd1) \<noteq> None \<and>
      resolve_command chan (alice_says ''!ROL 6'') = Inr (Some (roll, cmd2)) \<and>
      command cmd2 = command cmd1 \<and>
      handle_command (fst (call_command empty_bot 0 roll cmd1)) 1000000 (alice_says ''!ROL 6'') chan =
        Inr (fst (call_command empty_bot 0 roll cmd1), None, []))"
proof -
  have d: "distinct (map fst (commands chan))"
    by (simp add: chan_commands)
  have m: "map_of (commands chan) (lower ''ROLL'') = Some roll"
    "map_of (commands chan) (lower ''roll'') = Some roll"
    "map_of (commands chan) (lower ''rol'') = None"
    by (simp_all add: chan_commands lower_ROLL lower_roll lower_rol)
  have l: "lower ''rol'' = lower ''ROL''"
    by (simp add: lower_rol lower_ROL)
  have u: "\<exists>!name. name \<in> fst ` set (commands chan) \<and> startswith name (lower ''rol'')"
    using unique_rol by (simp add: lower_rol)
  have e: "command_log empty_bot k = None" for k
    by (simp add: empty_bot_def)
  note exact = command_log_keys [OF d, of "alice_says ''!ROLL 6''" "''ROLL''" "[''6'']"
      "alice_says ''!roll 6''" "''roll''" "[''6'']" empty_bot 0 0]
  note pref = command_log_keys [OF d, of "alice_says ''!rol 6''" "''rol''" "[''6'']"
      "alice_says ''!ROL 6''" "''ROL''" "[''6'']" empty_bot 0 1000000]
  from exact words_ROLL words_roll m(1)
  obtain cmd where c: "resolve_command chan (alice_says ''!ROLL 6'') = Inr (Some (roll, cmd))"
    "command cmd = ''!ROLL''"
    by auto
  have f: "snd (call_command empty_bot 0 roll cmd) \<noteq> None"
    by (simp add: call_command_throttled_iff e)
  from exact words_ROLL words_roll c f
  have one: "\<exists>r sent. handle_command empty_bot 0 (alice_says ''!ROLL 6'') chan =
         Inr (empty_bot\<lparr>last_command := Some (entry_of cmd),
                command_log := (command_log empty_bot)(command cmd \<mapsto> 0)\<rparr>, r, sent)"
    by blast
  from exact words_ROLL words_roll m(1,2)
  have two: "\<exists>b1 r sent. handle_command empty_bot 0 (alice_says ''!ROLL 6'') chan = Inr (b1, r, sent) \<and>
      command_log b1 ''!roll'' = command_log empty_bot ''!roll''"
    by simp
  from pref words_rol words_ROL m(3) u
  have three: "\<exists>name f cmd. (name, f) \<in> set (commands chan) \<and> startswith name (lower ''rol'') \<and>
      resolve_command chan (alice_says ''!rol 6'') = Inr (Some (f, cmd)) \<and>
      command cmd = CHR ''!'' # name"
    by blast
  let ?c1 = "\<lparr>cmd_message = alice_says ''!rol 6'', command = ''!roll'', args = [''6'']\<rparr>"
  have f1: "snd (call_command empty_bot 0 roll ?c1) \<noteq> None"
    by (simp add: call_command_throttled_iff e)
  from pref words_rol words_ROL m(3) l resolve_rol f1 not_admin [of "''!ROL 6''"]
  have "\<exists>cmd2. resolve_command chan (alice_says ''!ROL 6'') = Inr (Some (roll, cmd2)) \<and>
      command cmd2 = command ?c1 \<and>
      handle_command (fst (call_command empty_bot 0 roll ?c1)) 1000000 (alice_says ''!ROL 6'') chan =
        Inr (fst (call_command empty_bot 0 roll ?c1), None, [])"
    by simp
  with resolve_rol f1
  have four: "\<exists>cmd1 cmd2. resolve_command chan (alice_says ''!rol 6'') = Inr (Some (roll, cmd1)) \<and>
      snd (call_command empty_bot 0 roll cmd1) \<noteq> None \<and>
      resolve_command chan (alice_says ''!ROL 6'') = Inr (Some (roll, cmd2)) \<and>
      command cmd2 = command cmd1 \<and>
      handle_command (fst (call_command empty_bot 0 roll cmd1)) 1000000 (alice_says ''!ROL 6'') chan =
        Inr (fst (call_command empty_bot 0 roll cmd1), None, [])"
    by blast
  from c f one have zero: "\<exists>cmd. resolve_command chan (alice_says ''!ROLL 6'') = Inr (Some (roll, cmd)) \<and>
      command cmd = ''!ROLL'' \<and>
      snd (call_command empty_bot 0 roll cmd) \<noteq> None \<and>
      (\<exists>r sent. handle_command empty_bot 0 (alice_says ''!ROLL 6'') chan =
         Inr (empty_bot\<lparr>last_command := Some (entry_of cmd),
                command_log := (command_log empty_bot)(command cmd \<mapsto> 0)\<rparr>, r, sent))"
    by blast
  have w: "words (alice_says ''!ROLL 6'') = (CHR ''!'' # ''ROLL'') # [''6'']"
    "words (alice_says ''!roll 6'') = (CHR ''!'' # ''roll'') # [''6'']"
    "words (alice_says ''!rol 6'') = (CHR ''!'' # ''rol'') # [''6'']"
    "words (alice_says ''!ROL 6'') = (CHR ''!'' # ''ROL'') # [''6'']"
    by (simp_all add: words_ROLL words_roll words_rol words_ROL)
  have n: "''ROLL'' \<noteq> ''roll''" by simp
  from d w m n zero two l u three not_admin [of "''!ROL 6''"] four show ?thesis
    by (intro conjI)
qed

text \<open>
  The claim as written fails: \<open>!rol 6\<close> and \<open>!ROL 6\<close> differ only in letter case and
  call the same registered command \<open>roll\<close>; both are logged under \<open>!roll\<close>, and the
  second, one second after the first, is dropped.
\<close>

theorem prefix_invocations_share_key:
  "message (alice_says ''!rol 6'') \<noteq> message (alice_says ''!ROL 6'') \<and>
   lower (message (alice_says ''!rol 6'')) = lower (message (alice_says ''!ROL 6'')) \<and>
   handle_command empty_bot 0 (alice_says ''!rol 6'') chan =
     Inr (empty_bot\<lparr>last_command := Some (Some ''one.example'', ''!roll'', [''6'']),
            command_log := [''!roll'' \<mapsto> 0]\<rparr>,
          Some (Text ''Rolling for !roll''), [(''#chan'', ''Rolling for !roll'')]) \<and>
   handle_command
     (empty_bot\<lparr>last_command := Some (Some ''one.example'', ''!roll'', [''6'']),
        command_log := [''!roll'' \<mapsto> 0]\<rparr>)
     1000000 (alice_says ''!ROL 6'') chan =
     Inr (empty_bot\<lparr>last_command := Some (Some ''one.example'', ''!roll'', [''6'']),
            command_log := [''!roll'' \<mapsto> 0]\<rparr>, None, [])"
proof (intro conjI)
  show "message (alice_says ''!rol 6'') \<noteq> message (alice_says ''!ROL 6'')"
    by (simp add: alice_says_def Message_def)
  show "lower (message (alice_says ''!rol 6'')) = lower (message (alice_says ''!ROL 6''))"
    by (simp add: alice_says_def Message_def lower_def lower_char_def)
  show "handle_command empty_bot 0 (alice_says ''!rol 6'') chan =
     Inr (empty_bot\<lparr>last_command := Some (Some ''one.example'', ''!roll'', [''6'']),
            command_log := [''!roll'' \<mapsto> 0]\<rparr>,
          Some (Text ''Rolling for !roll''), [(''#chan'', ''Rolling for !roll'')])"
    by (simp add: handle_command_def resolve_rol maybe_send_cmd_reply_def rol_first is_true_def
        texts_def send_msg_def)
      (simp add: alice_says_def Message_def)
  show "handle_command
     (empty_bot\<lparr>last_command := Some (Some ''one.example'', ''!roll'', [''6'']),
        command_log := [''!roll'' \<mapsto> 0]\<rparr>)
     1000000 (alice_says ''!ROL 6'') chan =
     Inr (empty_bot\<lparr>last_command := Some (Some ''one.example'', ''!roll'', [''6'']),
            command_log := [''!roll'' \<mapsto> 0]\<rparr>, None, [])"
    by (simp add: handle_command_def resolve_ROL maybe_send_cmd_reply_def call_command_def Let_def
        seconds_def SPAM_THROTTLE_def not_admin)
qed

end
